theory Spec2Isabelle
  imports Complex_Main "HOL-Library.AList" "HOL-Library.Product_Lexorder"
begin

text \<open>
  A shallow embedding of the loading pipeline of seagliderOG1: \<^verbatim>\<open>load_dataset\<close> and
  \<^verbatim>\<open>add_gps_coordinates\<close> of \<^verbatim>\<open>fetchers.py\<close>, and the unit conversion table of
  \<^verbatim>\<open>vocabularies.py\<close>. Datasets are association lists of named variables, the Python
  exceptions are values of a sum type, and the loops are recursive functions on the lists
  they iterate over. The calls into NumPy and xarray are written out as functions on
  these lists.
\<close>

section \<open>Errors\<close>

text \<open>
  The Python exceptions that the modelled functions of \<^verbatim>\<open>fetchers.py\<close> can raise. A
  function that may raise returns \<open>error + 'a\<close>, with \<open>Inl\<close> for the exception.
\<close>

datatype error = KeyError | ValueError | IndexError | AttributeError | TypeError

section \<open>Unit conversion table (vocabularies.py)\<close>

text \<open>
  \<^verbatim>\<open>unit_conversion\<close> is a dict literal. Its items are listed here in the order of the
  source, including the key \<^verbatim>\<open>'dbar'\<close> which the literal gives twice. A Python dict
  literal is built left to right and a repeated key overwrites the earlier value, which
  \<open>dict_of\<close> does.
\<close>

definition dict_of :: "('k \<times> 'v) list \<Rightarrow> ('k \<rightharpoonup> 'v)" where
  "dict_of items = foldl (\<lambda>m (k, v). m(k \<mapsto> v)) Map.empty items"

definition unit_conversion_items :: "(string \<times> (string \<times> real)) list" where
  "unit_conversion_items =
    [ (''cm/s'', (''m/s'', 1 / 100)),
      (''cm s-1'', (''m s-1'', 1 / 100)),
      (''m/s'', (''cm/s'', 100)),
      (''m s-1'', (''cm s-1'', 100)),
      (''S/m'', (''mS/cm'', 1 / 10)),
      (''S m-1'', (''mS cm-1'', 1 / 10)),
      (''mS/cm'', (''S/m'', 10)),
      (''mS cm-1'', (''S m-1'', 10)),
      (''dbar'', (''Pa'', 10000)),
      (''Pa'', (''dbar'', 1 / 10000)),
      (''dbar'', (''kPa'', 10)) ]"

definition unit_conversion :: "string \<rightharpoonup> (string \<times> real)" where
  "unit_conversion = dict_of unit_conversion_items"

section \<open>File selection (load_dataset, first loop)\<close>

text \<open>\<^verbatim>\<open>str.endswith\<close>.\<close>

definition endswith :: "string \<Rightarrow> string \<Rightarrow> bool" where
  "endswith s suffix =
     (length suffix \<le> length s \<and> drop (length s - length suffix) s = suffix)"

text \<open>
  \<^verbatim>\<open>int(s)\<close> on a string: surrounding white space is stripped, one sign is allowed, and
  what remains must be a non-empty run of decimal digits; anything else raises
  \<^verbatim>\<open>ValueError\<close>. (Underscores between digits cannot occur here, the argument being a
  piece of a split at \<^verbatim>\<open>_\<close>; characters are bytes, so only ASCII digits and white space
  are covered.)
\<close>

definition is_space :: "char \<Rightarrow> bool" where
  "is_space c = (c \<in> set [CHR '' '', CHR 0x09, CHR 0x0A, CHR 0x0B, CHR 0x0C, CHR 0x0D,
                            CHR 0x1C, CHR 0x1D, CHR 0x1E, CHR 0x1F])"

definition is_digit :: "char \<Rightarrow> bool" where
  "is_digit c = (c \<in> set ''0123456789'')"

definition digit_val :: "char \<Rightarrow> int" where
  "digit_val c = int (of_char c) - 48"

definition strip :: "string \<Rightarrow> string" where
  "strip s = rev (dropWhile is_space (rev (dropWhile is_space s)))"

definition digits_val :: "string \<Rightarrow> error + int" where
  "digits_val s =
     (if s \<noteq> [] \<and> list_all is_digit s
      then Inr (foldl (\<lambda>a c. 10 * a + digit_val c) 0 s)
      else Inl ValueError)"

definition py_int :: "string \<Rightarrow> error + int" where
  "py_int s =
     (case strip s of
        [] \<Rightarrow> Inl ValueError
      | c # cs \<Rightarrow>
          if c = CHR ''-'' then (case digits_val cs of Inl e \<Rightarrow> Inl e | Inr n \<Rightarrow> Inr (- n))
          else if c = CHR ''+'' then digits_val cs
          else digits_val (c # cs))"

text \<open>\<^verbatim>\<open>int(file.split("_")[0][4:])\<close>: the text before the first underscore, from
  character 4 on.\<close>

definition profile_number :: "string \<Rightarrow> error + int" where
  "profile_number file = py_int (drop 4 (takeWhile (\<lambda>c. c \<noteq> CHR ''_'') file))"

text \<open>The four-way test on the bounds, in the order of the source's \<^verbatim>\<open>if/elif\<close> chain.\<close>

definition in_profile_range :: "int option \<Rightarrow> int option \<Rightarrow> int \<Rightarrow> bool" where
  "in_profile_range start_profile end_profile p =
     (if start_profile \<noteq> None \<and> end_profile \<noteq> None
        then the start_profile \<le> p \<and> p \<le> the end_profile
      else if start_profile \<noteq> None then p \<ge> the start_profile
      else if end_profile \<noteq> None then p \<le> the end_profile
      else True)"

text \<open>
  The loop over \<^verbatim>\<open>file_list\<close>, with \<^verbatim>\<open>filtered_files\<close> as the accumulator. A name
  that ends in \<^verbatim>\<open>.nc\<close> and does not parse raises, which ends the whole call.
\<close>

fun filter_files ::
  "string list \<Rightarrow> int option \<Rightarrow> int option \<Rightarrow> string list \<Rightarrow> error + string list" where
  "filter_files [] start_profile end_profile filtered_files = Inr filtered_files"
| "filter_files (file # file_list) start_profile end_profile filtered_files =
     (if endswith file ''.nc'' then
        (case profile_number file of
           Inl e \<Rightarrow> Inl e
         | Inr p \<Rightarrow>
             filter_files file_list start_profile end_profile
               (if in_profile_range start_profile end_profile p
                then filtered_files @ [file] else filtered_files))
      else filter_files file_list start_profile end_profile filtered_files)"

section \<open>Dive records as datasets\<close>

text \<open>
  A dive record is an \<^verbatim>\<open>xarray.Dataset\<close>: named variables, each with its dimension names,
  its shape, its numbers and its attributes. The numbers of an array are kept flat (row
  major), so a one-dimensional variable of length \<open>n\<close> has shape \<open>[n]\<close> and \<open>n\<close> values, and a
  dimensionless one has shape \<open>[]\<close> and one value. An entry is a real number or the missing
  value: \<open>None\<close> stands for \<^verbatim>\<open>np.nan\<close>. Rounding of floating-point arithmetic is not part
  of the model.
\<close>

type_synonym cell = "real option"

record variable =
  dims :: "string list"
  shape :: "nat list"
  vals :: "cell list"
  attrs :: "(string \<times> string) list"

type_synonym dataset = "(string \<times> variable) list"

definition sg_data_point :: string where
  "sg_data_point = ''sg_data_point''"

text \<open>\<^verbatim>\<open>ds.dims\<close>: every dimension used by a variable, with its length.\<close>

definition ds_dims :: "dataset \<Rightarrow> (string \<times> nat) list" where
  "ds_dims ds = concat (map (\<lambda>(name, v). zip (dims v) (shape v)) ds)"

text \<open>\<^verbatim>\<open>ds.dims[d]\<close>, a \<^verbatim>\<open>KeyError\<close> when no variable has the dimension.\<close>

definition dim_size :: "dataset \<Rightarrow> string \<Rightarrow> error + nat" where
  "dim_size ds d = (case map_of (ds_dims ds) d of None \<Rightarrow> Inl KeyError | Some n \<Rightarrow> Inr n)"

text \<open>\<^verbatim>\<open>(['sg_data_point'], np.full(n, np.nan))\<close>: a fresh variable on the measurement axis,
  all missing, without attributes.\<close>

definition full_nan :: "nat \<Rightarrow> variable" where
  "full_nan n = \<lparr>dims = [sg_data_point], shape = [n], vals = replicate n None, attrs = []\<rparr>"

section \<open>repeat_trajectory_vars\<close>

text \<open>
  \<^verbatim>\<open>ds['trajectory'][:] = trajectory_var\<close> assigns an array to every position of a
  one-dimensional array of length \<open>n\<close>. NumPy broadcasts: a value of no dimension or of one
  element is repeated, a one-dimensional value of length \<open>n\<close> is copied, and every other
  value raises \<^verbatim>\<open>ValueError\<close> (more than one dimension, or a length that is neither 1 nor
  \<open>n\<close>).
\<close>

definition assign_all :: "nat \<Rightarrow> variable \<Rightarrow> error + cell list" where
  "assign_all n trajectory_var =
     (if length (shape trajectory_var) > 1 then Inl ValueError
      else (case vals trajectory_var of
              [x] \<Rightarrow> Inr (replicate n x)
            | xs \<Rightarrow> if length (shape trajectory_var) = 1 \<and> length xs = n
                    then Inr xs else Inl ValueError))"

definition repeat_trajectory_vars :: "dataset \<Rightarrow> error + dataset" where
  "repeat_trajectory_vars ds =
     (case map_of ds ''trajectory'' of
        None \<Rightarrow> Inl KeyError
      | Some trajectory_var \<Rightarrow>
          (case map_of (attrs trajectory_var) ''comment'' of
             None \<Rightarrow> Inl KeyError
           | Some trajectory_comment \<Rightarrow>
               (case dim_size ds sg_data_point of
                  Inl e \<Rightarrow> Inl e
                | Inr n \<Rightarrow>
                    (case assign_all n trajectory_var of
                       Inl e \<Rightarrow> Inl e
                     | Inr filled \<Rightarrow>
                         Inr (AList.update ''trajectory''
                                ((full_nan n)\<lparr>vals := filled,
                                   attrs := [(''comment'', trajectory_comment)]\<rparr>) ds)))))"

section \<open>add_gps_coordinates\<close>

text \<open>\<^verbatim>\<open>np.abs(a - b)\<close> on one entry: missing if either side is missing.\<close>

definition abs_diff :: "cell \<Rightarrow> cell \<Rightarrow> cell" where
  "abs_diff a b = (case a of None \<Rightarrow> None
                   | Some x \<Rightarrow> (case b of None \<Rightarrow> None | Some y \<Rightarrow> Some \<bar>x - y\<bar>))"

text \<open>
  \<^verbatim>\<open>DataArray.argmin()\<close> on floating-point data skips missing entries and returns the
  position of the first smallest entry; it raises \<^verbatim>\<open>ValueError\<close> on an empty array and on
  an array with missing entries only. \<open>scan_min\<close> is the scan from the left, carrying the
  position and value of the best entry so far, which is replaced only by a strictly
  smaller one.
\<close>

fun scan_min :: "cell list \<Rightarrow> nat \<Rightarrow> (nat \<times> real) option \<Rightarrow> (nat \<times> real) option" where
  "scan_min [] i best = best"
| "scan_min (None # cs) i best = scan_min cs (Suc i) best"
| "scan_min (Some x # cs) i best =
     scan_min cs (Suc i)
       (case best of None \<Rightarrow> Some (i, x)
        | Some (j, m) \<Rightarrow> if x < m then Some (i, x) else Some (j, m))"

definition argmin :: "cell list \<Rightarrow> error + nat" where
  "argmin cs = (case scan_min cs 0 None of None \<Rightarrow> Inl ValueError | Some (i, m) \<Rightarrow> Inr i)"

definition find_nearest_index :: "dataset \<Rightarrow> cell \<Rightarrow> error + nat" where
  "find_nearest_index ds gps_time =
     (case map_of ds ''ctd_time'' of
        None \<Rightarrow> Inl KeyError
      | Some ctd_time \<Rightarrow> argmin (map (\<lambda>t. abs_diff t gps_time) (vals ctd_time)))"

text \<open>\<^verbatim>\<open>ds[name][i] = x\<close>: one entry of a variable is overwritten in place.\<close>

definition set_item :: "dataset \<Rightarrow> string \<Rightarrow> nat \<Rightarrow> cell \<Rightarrow> error + dataset" where
  "set_item ds name i x =
     (case map_of ds name of
        None \<Rightarrow> Inl KeyError
      | Some v \<Rightarrow> if i < length (vals v)
                  then Inr (AList.update name (v\<lparr>vals := (vals v)[i := x]\<rparr>) ds)
                  else Inl IndexError)"

text \<open>The loop over the fixes, in fix-axis order, with the dataset as the state.\<close>

fun fill_gps :: "(cell \<times> cell \<times> cell) list \<Rightarrow> dataset \<Rightarrow> error + dataset" where
  "fill_gps [] ds = Inr ds"
| "fill_gps ((gps_time, gps_lat, gps_lon) # fixes) ds =
     (case find_nearest_index ds gps_time of
        Inl e \<Rightarrow> Inl e
      | Inr nearest_index \<Rightarrow>
          (case set_item ds ''gps_lat'' nearest_index gps_lat of
             Inl e \<Rightarrow> Inl e
           | Inr ds1 \<Rightarrow>
               (case set_item ds1 ''gps_lon'' nearest_index gps_lon of
                  Inl e \<Rightarrow> Inl e
                | Inr ds2 \<Rightarrow>
                    (case set_item ds2 ''gps_time'' nearest_index gps_time of
                       Inl e \<Rightarrow> Inl e
                     | Inr ds3 \<Rightarrow> fill_gps fixes ds3))))"

text \<open>
  \<^verbatim>\<open>ds.log_gps_time.values\<close> as the loop iterates it: attribute access raises
  \<^verbatim>\<open>AttributeError\<close> for an absent variable, and iterating an array without dimension
  raises \<^verbatim>\<open>TypeError\<close>. The fix arrays are one-dimensional (the fix axis); arrays of more
  dimensions are not covered and are treated like the dimensionless case.
\<close>

definition log_values :: "dataset \<Rightarrow> string \<Rightarrow> error + cell list" where
  "log_values ds name =
     (case map_of ds name of
        None \<Rightarrow> Inl AttributeError
      | Some v \<Rightarrow> if length (shape v) = 1 then Inr (vals v) else Inl TypeError)"

definition add_gps_coordinates :: "dataset \<Rightarrow> error + dataset" where
  "add_gps_coordinates ds =
     (case dim_size ds sg_data_point of
        Inl e \<Rightarrow> Inl e
      | Inr n1 \<Rightarrow>
     (let ds1 = AList.update ''gps_lat'' (full_nan n1) ds in
      case dim_size ds1 sg_data_point of
        Inl e \<Rightarrow> Inl e
      | Inr n2 \<Rightarrow>
     (let ds2 = AList.update ''gps_lon'' (full_nan n2) ds1 in
      case dim_size ds2 sg_data_point of
        Inl e \<Rightarrow> Inl e
      | Inr n3 \<Rightarrow>
     (let ds3 = AList.update ''gps_time'' (full_nan n3) ds2 in
      case log_values ds3 ''log_gps_time'' of
        Inl e \<Rightarrow> Inl e
      | Inr gps_times \<Rightarrow>
     (case log_values ds3 ''log_gps_lat'' of
        Inl e \<Rightarrow> Inl e
      | Inr lats \<Rightarrow>
     (case log_values ds3 ''log_gps_lon'' of
        Inl e \<Rightarrow> Inl e
      | Inr lons \<Rightarrow> fill_gps (zip gps_times (zip lats lons)) ds3))))))"

section \<open>Dropping the other dimensions\<close>

text \<open>
  \<^verbatim>\<open>Dataset.drop_dims(drop)\<close> removes every variable that uses one of the dimensions in
  \<open>dropped\<close>. \<open>ds_sg_data_point\<close> is the call of \<^verbatim>\<open>load_dataset\<close>, whose argument is every
  dimension of the dataset but the measurement axis.
\<close>

definition drop_dims :: "dataset \<Rightarrow> string set \<Rightarrow> dataset" where
  "drop_dims ds dropped = filter (\<lambda>(name, v). set (dims v) \<inter> dropped = {}) ds"

definition ds_sg_data_point :: "dataset \<Rightarrow> dataset" where
  "ds_sg_data_point ds = drop_dims ds (set (map fst (ds_dims ds)) - {sg_data_point})"

section \<open>Concatenation and sorting\<close>

text \<open>
  \<^verbatim>\<open>xr.concat(datasets, dim="sg_data_point")\<close> is a call into the xarray library. It
  raises \<^verbatim>\<open>ValueError\<close> on an empty list. For records with the same variable names the
  result has the variables of the first record, in its order, each holding the arrays of
  all records one after the other, in the order of the records, with the attributes of
  the first; a variable without the measurement axis is first repeated along it. The
  arrays being flat, this covers the variables that reach the call in \<^verbatim>\<open>load_dataset\<close>,
  whose only dimension is the measurement axis.

  What the library does with records whose variable names differ is not decided by the
  source and has changed between releases of the library, so it is the parameter
  \<open>differing\<close> of the model.
\<close>

definition axis_len :: "dataset \<Rightarrow> nat" where
  "axis_len ds = (case map_of (ds_dims ds) sg_data_point of None \<Rightarrow> 1 | Some n \<Rightarrow> n)"

definition along_axis :: "nat \<Rightarrow> variable \<Rightarrow> cell list" where
  "along_axis n v = (if sg_data_point \<in> set (dims v) then vals v
                     else concat (replicate n (vals v)))"

definition column :: "string \<Rightarrow> dataset \<Rightarrow> cell list" where
  "column name ds = (case map_of ds name of None \<Rightarrow> []
                     | Some v \<Rightarrow> along_axis (axis_len ds) v)"

definition concat_var :: "string \<Rightarrow> variable \<Rightarrow> dataset list \<Rightarrow> variable" where
  "concat_var name v0 datasets =
     (let total = sum_list (map axis_len datasets) in
      \<lparr>dims = (if sg_data_point \<in> set (dims v0) then dims v0 else sg_data_point # dims v0),
       shape = (if sg_data_point \<in> set (dims v0)
                then map (\<lambda>(d, k). if d = sg_data_point then total else k)
                       (zip (dims v0) (shape v0))
                else total # shape v0),
       vals = concat (map (column name) datasets),
       attrs = attrs v0\<rparr>)"

definition xr_concat ::
  "(dataset list \<Rightarrow> error + dataset) \<Rightarrow> dataset list \<Rightarrow> error + dataset" where
  "xr_concat differing datasets =
     (case datasets of
        [] \<Rightarrow> Inl ValueError
      | ds0 # rest \<Rightarrow>
          if \<forall>ds \<in> set rest. set (map fst ds) = set (map fst ds0)
          then Inr (map (\<lambda>(name, v0). (name, concat_var name v0 datasets)) ds0)
          else differing datasets)"

text \<open>
  \<^verbatim>\<open>Dataset.sortby(name)\<close> sorts along the dimension of a one-dimensional variable:
  \<^verbatim>\<open>np.lexsort\<close> gives the positions in ascending order of the key, stable, with missing
  keys last, and every variable on that dimension is reordered by these positions. A
  missing variable raises \<^verbatim>\<open>KeyError\<close>, a key of another number of dimensions
  \<^verbatim>\<open>ValueError\<close>.
\<close>

definition sort_rank :: "cell \<Rightarrow> bool \<times> real" where
  "sort_rank c = (case c of None \<Rightarrow> (True, 0) | Some t \<Rightarrow> (False, t))"

definition lexsort :: "cell list \<Rightarrow> nat list" where
  "lexsort keys = sort_key (\<lambda>i. sort_rank (keys ! i)) [0..<length keys]"

definition isel :: "string \<Rightarrow> nat list \<Rightarrow> variable \<Rightarrow> variable" where
  "isel d order v = (if d \<in> set (dims v) then v\<lparr>vals := map (\<lambda>i. vals v ! i) order\<rparr> else v)"

definition sortby :: "dataset \<Rightarrow> string \<Rightarrow> error + dataset" where
  "sortby ds name =
     (case map_of ds name of
        None \<Rightarrow> Inl KeyError
      | Some key \<Rightarrow>
          (case dims key of
             [d] \<Rightarrow> Inr (map (\<lambda>(k, v). (k, isel d (lexsort (vals key)) v)) ds)
           | _ \<Rightarrow> Inl ValueError))"

text \<open>The last two statements of \<^verbatim>\<open>load_dataset\<close>, which produce \<^verbatim>\<open>ds_all\<close>.\<close>

definition ds_all :: "(dataset list \<Rightarrow> error + dataset) \<Rightarrow> dataset list \<Rightarrow> error + dataset" where
  "ds_all differing datasets =
     (case xr_concat differing datasets of
        Inl e \<Rightarrow> Inl e
      | Inr merged \<Rightarrow> sortby merged ''ctd_time'')"

section \<open>load_dataset\<close>

text \<open>
  The body of the second loop for one opened file, the loop itself with \<^verbatim>\<open>datasets\<close> as
  accumulator, and the whole function from the listing on. The listing of the source
  (a URL or a directory; any other source raises \<^verbatim>\<open>ValueError\<close> before anything is read)
  and the file reader are outside the repository: \<open>file_list\<close> is the listing and
  \<open>open_dataset\<close> the reader.
\<close>

definition process_file :: "dataset \<Rightarrow> error + dataset" where
  "process_file ds =
     (case repeat_trajectory_vars ds of
        Inl e \<Rightarrow> Inl e
      | Inr ds1 \<Rightarrow>
          (case add_gps_coordinates ds1 of
             Inl e \<Rightarrow> Inl e
           | Inr ds2 \<Rightarrow> Inr (ds_sg_data_point ds2)))"

fun load_files ::
  "(string \<Rightarrow> error + dataset) \<Rightarrow> string list \<Rightarrow> dataset list \<Rightarrow> error + dataset list" where
  "load_files open_dataset [] datasets = Inr datasets"
| "load_files open_dataset (file # filtered_files) datasets =
     (case open_dataset file of
        Inl e \<Rightarrow> Inl e
      | Inr ds \<Rightarrow>
          (case process_file ds of
             Inl e \<Rightarrow> Inl e
           | Inr ds_sg \<Rightarrow> load_files open_dataset filtered_files (datasets @ [ds_sg])))"

definition load_dataset ::
  "(dataset list \<Rightarrow> error + dataset) \<Rightarrow> (string \<Rightarrow> error + dataset) \<Rightarrow> string list
   \<Rightarrow> int option \<Rightarrow> int option \<Rightarrow> error + dataset" where
  "load_dataset differing open_dataset file_list start_profile end_profile =
     (case filter_files file_list start_profile end_profile [] of
        Inl e \<Rightarrow> Inl e
      | Inr filtered_files \<Rightarrow>
          (case load_files open_dataset filtered_files [] of
             Inl e \<Rightarrow> Inl e
           | Inr datasets \<Rightarrow> ds_all differing datasets))"

section \<open>Notions used to state the properties\<close>

text \<open>
  The fix axis of a dive record: the three arrays \<^verbatim>\<open>log_gps_time\<close>, \<^verbatim>\<open>log_gps_lat\<close>
  and \<^verbatim>\<open>log_gps_lon\<close> are one-dimensional, of one length, and hold the observed numbers
  \<open>ts\<close>, \<open>lats\<close> and \<open>lons\<close>.
\<close>

definition fix_array :: "dataset \<Rightarrow> string \<Rightarrow> real list \<Rightarrow> bool" where
  "fix_array ds name xs \<longleftrightarrow>
     (\<exists>v. map_of ds name = Some v \<and> length (shape v) = 1 \<and> vals v = map Some xs)"

definition gps_fixes :: "dataset \<Rightarrow> real list \<Rightarrow> real list \<Rightarrow> real list \<Rightarrow> bool" where
  "gps_fixes ds ts lats lons \<longleftrightarrow>
     fix_array ds ''log_gps_time'' ts \<and> fix_array ds ''log_gps_lat'' lats
     \<and> fix_array ds ''log_gps_lon'' lons
     \<and> length lats = length ts \<and> length lons = length ts"

text \<open>
  The same without the requirement that the entries are numbers: the three arrays hold the
  entries \<open>ts\<close>, \<open>lats\<close> and \<open>lons\<close>, any of which may be missing.
\<close>

definition fix_cells :: "dataset \<Rightarrow> string \<Rightarrow> cell list \<Rightarrow> bool" where
  "fix_cells ds name cs \<longleftrightarrow>
     (\<exists>v. map_of ds name = Some v \<and> length (shape v) = 1 \<and> vals v = cs)"

definition gps_fix_cells :: "dataset \<Rightarrow> cell list \<Rightarrow> cell list \<Rightarrow> cell list \<Rightarrow> bool" where
  "gps_fix_cells ds ts lats lons \<longleftrightarrow>
     fix_cells ds ''log_gps_time'' ts \<and> fix_cells ds ''log_gps_lat'' lats
     \<and> fix_cells ds ''log_gps_lon'' lons
     \<and> length lats = length ts \<and> length lons = length ts"

text \<open>The number of entries of an array that are not missing.\<close>

definition count_present :: "cell list \<Rightarrow> nat" where
  "count_present cs = length (filter (\<lambda>c. c \<noteq> None) cs)"

text \<open>
  Two auxiliary functions for the proofs about the loop of \<^verbatim>\<open>add_gps_coordinates\<close>:
  \<open>scatter\<close> performs a list of single writes on one array, and \<open>gps_start\<close> is the
  dataset when the loop starts, with the three fresh arrays.
\<close>

fun scatter :: "cell list \<Rightarrow> (nat \<times> cell) list \<Rightarrow> cell list" where
  "scatter arr [] = arr"
| "scatter arr ((i, x) # ps) = scatter (arr[i := x]) ps"

definition gps_start :: "dataset \<Rightarrow> nat \<Rightarrow> dataset" where
  "gps_start ds n = AList.update ''gps_time'' (full_nan n)
                      (AList.update ''gps_lon'' (full_nan n)
                        (AList.update ''gps_lat'' (full_nan n) ds))"



section \<open>Example records\<close>

text \<open>
  Dive A of the specification's scenario (samples at 100, 200, 300 and one fix at 150 with
  latitude 10 and longitude 20), a dive with two fixes nearest to the same sample, and a
  dive without fixes; \<open>dive_A_gps\<close> and \<open>dive_C_gps\<close> are what \<^verbatim>\<open>add_gps_coordinates\<close>
  returns for the first two.
\<close>

definition mk_var :: "string \<Rightarrow> real list \<Rightarrow> variable" where
  "mk_var d xs = \<lparr>dims = [d], shape = [length xs], vals = map Some xs, attrs = []\<rparr>"

definition nan_var :: "cell list \<Rightarrow> variable" where
  "nan_var cs = \<lparr>dims = [sg_data_point], shape = [length cs], vals = cs, attrs = []\<rparr>"

definition dive_A :: dataset where
  "dive_A = [(''ctd_time'', mk_var sg_data_point [100, 200, 300]),
             (''log_gps_time'', mk_var ''gps_info'' [150]),
             (''log_gps_lat'', mk_var ''gps_info'' [10]),
             (''log_gps_lon'', mk_var ''gps_info'' [20])]"

definition dive_C :: dataset where
  "dive_C = [(''ctd_time'', mk_var sg_data_point [100, 200, 300]),
             (''log_gps_time'', mk_var ''gps_info'' [110, 120]),
             (''log_gps_lat'', mk_var ''gps_info'' [10, 11]),
             (''log_gps_lon'', mk_var ''gps_info'' [20, 21])]"

definition dive_E :: dataset where
  "dive_E = [(''ctd_time'', mk_var sg_data_point [100, 200]),
             (''log_gps_time'', mk_var ''gps_info'' []),
             (''log_gps_lat'', mk_var ''gps_info'' []),
             (''log_gps_lon'', mk_var ''gps_info'' [])]"

definition dive_A_gps :: dataset where
  "dive_A_gps = dive_A @
     [(''gps_lat'', nan_var [Some 10, None, None]),
      (''gps_lon'', nan_var [Some 20, None, None]),
      (''gps_time'', nan_var [Some 150, None, None])]"

definition dive_C_gps :: dataset where
  "dive_C_gps = dive_C @
     [(''gps_lat'', nan_var [Some 11, None, None]),
      (''gps_lon'', nan_var [Some 21, None, None]),
      (''gps_time'', nan_var [Some 120, None, None])]"

text \<open>
  A dive whose second fix is nearest to the last sample, and a dive whose only fix has a
  missing latitude, each with what \<^verbatim>\<open>add_gps_coordinates\<close> returns for it.
\<close>

definition cell_var :: "string \<Rightarrow> cell list \<Rightarrow> variable" where
  "cell_var d cs = \<lparr>dims = [d], shape = [length cs], vals = cs, attrs = []\<rparr>"

definition dive_F :: dataset where
  "dive_F = [(''ctd_time'', mk_var sg_data_point [100, 200, 300]),
             (''log_gps_time'', mk_var ''gps_info'' [150, 290]),
             (''log_gps_lat'', mk_var ''gps_info'' [10, 12]),
             (''log_gps_lon'', mk_var ''gps_info'' [20, 22])]"

definition dive_F_gps :: dataset where
  "dive_F_gps = dive_F @
     [(''gps_lat'', nan_var [Some 10, None, Some 12]),
      (''gps_lon'', nan_var [Some 20, None, Some 22]),
      (''gps_time'', nan_var [Some 150, None, Some 290])]"

definition dive_N :: dataset where
  "dive_N = [(''ctd_time'', mk_var sg_data_point [100, 200, 300]),
             (''log_gps_time'', mk_var ''gps_info'' [150]),
             (''log_gps_lat'', cell_var ''gps_info'' [None]),
             (''log_gps_lon'', mk_var ''gps_info'' [20])]"

definition dive_N_gps :: dataset where
  "dive_N_gps = dive_N @
     [(''gps_lat'', nan_var [None, None, None]),
      (''gps_lon'', nan_var [Some 20, None, None]),
      (''gps_time'', nan_var [Some 150, None, None])]"

text \<open>
  Records for \<^verbatim>\<open>repeat_trajectory_vars\<close>: the trajectory identifier with one element
  and with two elements, on a measurement axis of length 3.
\<close>

definition traj1 :: variable where
  "traj1 = \<lparr>dims = [''trajectory''], shape = [1], vals = [Some 7],
             attrs = [(''comment'', ''dive number''), (''units'', ''1'')]\<rparr>"

definition traj2 :: variable where
  "traj2 = \<lparr>dims = [''trajectory''], shape = [2], vals = [Some 7, Some 7],
             attrs = [(''comment'', ''dive number'')]\<rparr>"

definition dive_T1 :: dataset where
  "dive_T1 = [(''ctd_time'', mk_var sg_data_point [100, 200, 300]), (''trajectory'', traj1)]"

definition dive_T2 :: dataset where
  "dive_T2 = [(''ctd_time'', mk_var sg_data_point [100, 200, 300]), (''trajectory'', traj2)]"

text \<open>
  A record with a variable on the measurement axis, a variable without dimension, a
  variable on the measurement axis and a second dimension, and a variable on the fix axis.
\<close>

definition scalar_var :: variable where
  "scalar_var = \<lparr>dims = [], shape = [], vals = [Some 550], attrs = []\<rparr>"

definition matrix_var :: variable where
  "matrix_var = \<lparr>dims = [sg_data_point, ''bin''], shape = [3, 2],
                  vals = [Some 1, Some 2, Some 3, Some 4, Some 5, Some 6], attrs = []\<rparr>"

definition dive_D :: dataset where
  "dive_D = [(''ctd_time'', mk_var sg_data_point [100, 200, 300]),
             (''log_D_TGT'', scalar_var),
             (''profile'', matrix_var),
             (''log_gps_time'', mk_var ''gps_info'' [150])]"

text \<open>
  Two records with a time shared between them and within one of them, each with a
  variable without dimension, and the two dives
  of the specification's scenario with the files that hold them and the trajectory that
  \<^verbatim>\<open>load_dataset\<close> returns for them.
\<close>

definition rec_A :: dataset where
  "rec_A = [(''ctd_time'', mk_var sg_data_point [100, 200, 200]),
            (''temperature'', mk_var sg_data_point [1, 2, 3]),
            (''log_D_TGT'', scalar_var)]"

definition rec_B :: dataset where
  "rec_B = [(''ctd_time'', mk_var sg_data_point [50, 200]),
            (''temperature'', mk_var sg_data_point [4, 5]),
            (''log_D_TGT'', scalar_var\<lparr>vals := [Some 560]\<rparr>)]"

definition scenario_A :: dataset where
  "scenario_A = [(''trajectory'', traj1),
                 (''ctd_time'', mk_var sg_data_point [100, 200, 300]),
                 (''temperature'', mk_var sg_data_point [1, 2, 3]),
                 (''log_gps_time'', mk_var ''gps_info'' [150]),
                 (''log_gps_lat'', mk_var ''gps_info'' [10]),
                 (''log_gps_lon'', mk_var ''gps_info'' [20])]"

definition scenario_B :: dataset where
  "scenario_B = [(''trajectory'', traj1),
                 (''ctd_time'', mk_var sg_data_point [50, 250]),
                 (''temperature'', mk_var sg_data_point [4, 5]),
                 (''log_gps_time'', mk_var ''gps_info'' [60]),
                 (''log_gps_lat'', mk_var ''gps_info'' [30]),
                 (''log_gps_lon'', mk_var ''gps_info'' [40])]"

definition scenario_files :: "string \<Rightarrow> error + dataset" where
  "scenario_files file =
     (if file = ''p0150001_20040924.nc'' then Inr scenario_A
      else if file = ''p0150002_20040924.nc'' then Inr scenario_B
      else Inl KeyError)"

definition scenario_traj :: dataset where
  "scenario_traj =
     [(''trajectory'', (nan_var [Some 7, Some 7, Some 7, Some 7, Some 7])
                         \<lparr>attrs := [(''comment'', ''dive number'')]\<rparr>),
      (''ctd_time'', mk_var sg_data_point [50, 100, 200, 250, 300]),
      (''temperature'', mk_var sg_data_point [4, 1, 2, 5, 3]),
      (''gps_lat'', nan_var [Some 30, Some 10, None, None, None]),
      (''gps_lon'', nan_var [Some 40, Some 20, None, None, None]),
      (''gps_time'', nan_var [Some 60, Some 150, None, None, None])]"

section \<open>Properties of the file selection\<close>

lemma filter_files_acc:
  "filter_files fl s e acc = Inr sel \<Longrightarrow>
   sel = acc @ filter (\<lambda>f. endswith f ''.nc'' \<and> (\<exists>p. profile_number f = Inr p \<and> in_profile_range s e p)) fl"
proof (induction fl arbitrary: acc)
  case Nil then show ?case by simp
next
  case (Cons f fl)
  show ?case
  proof (cases "endswith f ''.nc''")
    case False
    with Cons.prems have "filter_files fl s e acc = Inr sel" by simp
    from Cons.IH[OF this] False show ?thesis by simp
  next
    case True
    then obtain p where p: "profile_number f = Inr p"
      using Cons.prems by (cases "profile_number f") auto
    show ?thesis
    proof (cases "in_profile_range s e p")
      case True
      with \<open>endswith f ''.nc''\<close> p Cons.prems
      have "filter_files fl s e (acc @ [f]) = Inr sel" by simp
      from Cons.IH[OF this] True \<open>endswith f ''.nc''\<close> p show ?thesis by simp
    next
      case False
      with \<open>endswith f ''.nc''\<close> p Cons.prems
      have "filter_files fl s e acc = Inr sel" by simp
      from Cons.IH[OF this] False \<open>endswith f ''.nc''\<close> p show ?thesis by simp
    qed
  qed
qed

lemma filter_files_total:
  "(\<forall>f \<in> set fl. endswith f ''.nc'' \<longrightarrow> (\<exists>p. profile_number f = Inr p)) \<Longrightarrow>
   \<exists>sel. filter_files fl s e acc = Inr sel"
proof (induction fl arbitrary: acc)
  case Nil then show ?case by simp
next
  case (Cons f fl)
  then show ?case by (auto split: if_splits sum.splits)
qed

lemma filter_files_raises:
  "f \<in> set fl \<Longrightarrow> endswith f ''.nc'' \<Longrightarrow> profile_number f = Inl err \<Longrightarrow>
   \<exists>err'. filter_files fl s e acc = Inl err'"
proof (induction fl arbitrary: acc)
  case Nil then show ?case by simp
next
  case (Cons f fl)
  then show ?case by (auto split: if_splits sum.splits)
qed

lemma in_profile_range_iff:
  "in_profile_range s e p \<longleftrightarrow> (case s of None \<Rightarrow> True | Some a \<Rightarrow> a \<le> p) \<and> (case e of None \<Rightarrow> True | Some b \<Rightarrow> p \<le> b)"
  by (auto simp: in_profile_range_def split: option.splits)

lemmas file_eval_defs = endswith_def profile_number_def py_int_def strip_def is_space_def
  digits_val_def is_digit_def digit_val_def in_profile_range_def

text \<open>
  Claim C6. When the selection returns, a file of the listing whose name ends in
  \<^verbatim>\<open>.nc\<close> and parses to the profile number \<open>p\<close> is selected exactly when \<open>p\<close> lies between
  the bounds, both inclusive, a bound \<open>None\<close> being no constraint. With the bounds 10 and
  20, of the files numbered 5, 15 and 25 only the one numbered 15 is selected.
\<close>

theorem filter_files_inclusive_range:
  assumes "filter_files file_list start_profile end_profile [] = Inr filtered_files"
    and "file \<in> set file_list"
    and "endswith file ''.nc''"
    and "profile_number file = Inr p"
  shows "(file \<in> set filtered_files \<longleftrightarrow>
            (case start_profile of None \<Rightarrow> True | Some a \<Rightarrow> a \<le> p)
          \<and> (case end_profile of None \<Rightarrow> True | Some b \<Rightarrow> p \<le> b))
       \<and> filter_files [''p0150005_20040924.nc'', ''p0150015_20040929.nc'',
                        ''p0150025_20040930.nc''] (Some 10) (Some 20) []
           = Inr [''p0150015_20040929.nc'']"
proof -
  from filter_files_acc[OF assms(1)] have
    "file \<in> set filtered_files \<longleftrightarrow> in_profile_range start_profile end_profile p"
    using assms(2,3,4) by auto
  moreover have "filter_files [''p0150005_20040924.nc'', ''p0150015_20040929.nc'',
                        ''p0150025_20040930.nc''] (Some 10) (Some 20) []
           = Inr [''p0150015_20040929.nc'']"
    by (simp add: file_eval_defs)
  ultimately show ?thesis by (simp add: in_profile_range_iff)
qed

theorem filter_files_inclusive_range_witness:
  "(''p0150020_20040929.nc'' \<in> set [''p0150020_20040929.nc'', ''p0150021_20040929.nc''] \<longleftrightarrow>
      (10 :: int) \<le> 20 \<and> (20 :: int) \<le> 20)
   \<and> filter_files [''p0150020_20040929.nc'', ''notes.txt'', ''p0150021_20040929.nc'',
                    ''p0150009_20040928.nc'', ''p0150010_20040928.nc'']
        (Some 10) (Some 20) []
       = Inr [''p0150020_20040929.nc'', ''p0150010_20040928.nc'']"
proof -
  have h1: "filter_files [''p0150020_20040929.nc'', ''notes.txt'', ''p0150021_20040929.nc'',
                    ''p0150009_20040928.nc'', ''p0150010_20040928.nc'']
        (Some 10) (Some 20) []
       = Inr [''p0150020_20040929.nc'', ''p0150010_20040928.nc'']"
    by (simp add: file_eval_defs)
  have h2: "''p0150020_20040929.nc'' \<in> set [''p0150020_20040929.nc'', ''notes.txt'',
       ''p0150021_20040929.nc'', ''p0150009_20040928.nc'', ''p0150010_20040928.nc'']"
    by simp
  have h3: "endswith ''p0150020_20040929.nc'' ''.nc''" by (simp add: endswith_def)
  have h4: "profile_number ''p0150020_20040929.nc'' = Inr 20" by (simp add: file_eval_defs)
  from filter_files_inclusive_range[OF h1 h2 h3 h4] h1 show ?thesis by simp
qed

section \<open>Properties of argmin\<close>

lemma scan_min_None:
  "scan_min cs i best = None \<longleftrightarrow> best = None \<and> (\<forall>c \<in> set cs. c = None)"
  by (induction cs i best rule: scan_min.induct) (auto split: option.splits)

lemma scan_min_index:
  "scan_min cs i best = Some (k, m) \<Longrightarrow>
   best = Some (k, m) \<or> (i \<le> k \<and> k < i + length cs \<and> cs ! (k - i) = Some m)"
proof (induction cs i best rule: scan_min.induct)
  case (1 i best)
  then show ?case by simp
next
  case (2 cs i best)
  from "2.IH"[OF "2.prems"[simplified]] show ?case
    by (auto simp: nth_Cons' Suc_diff_le)
next
  case (3 x cs i best)
  from "3.IH"[OF "3.prems"[simplified]] show ?case
    by (auto simp: nth_Cons' Suc_diff_le split: option.splits if_splits)
qed

lemma scan_min_least:
  "scan_min cs i best = Some (k, m) \<Longrightarrow> (\<forall>j b. best = Some (j, b) \<longrightarrow> j < i) \<Longrightarrow>
   (\<forall>j < length cs. \<forall>y. cs ! j = Some y \<longrightarrow> m \<le> y \<and> (i + j < k \<longrightarrow> m < y))
   \<and> (\<forall>j b. best = Some (j, b) \<longrightarrow> m \<le> b \<and> (k \<noteq> j \<longrightarrow> m < b))"
proof (induction cs i best rule: scan_min.induct)
  case (1 i best)
  then show ?case by simp
next
  case (2 cs i best)
  have "\<forall>j b. best = Some (j, b) \<longrightarrow> j < Suc i" using "2.prems"(2) by auto
  note IH = "2.IH"[OF "2.prems"(1)[simplified] this]
  have tail: "\<forall>j < length cs. \<forall>y. cs ! j = Some y \<longrightarrow> m \<le> y \<and> (Suc i + j < k \<longrightarrow> m < y)"
    using IH by blast
  have old: "\<forall>j b. best = Some (j, b) \<longrightarrow> m \<le> b \<and> (k \<noteq> j \<longrightarrow> m < b)"
    using IH by blast
  show ?case
  proof (intro conjI allI impI)
    fix j y assume j: "j < length (None # cs)" and y: "(None # cs) ! j = Some y"
    show "m \<le> y" using j y tail by (cases j) auto
  next
    fix j y assume j: "j < length (None # cs)" and y: "(None # cs) ! j = Some y" and "i + j < k"
    then show "m < y" using tail by (cases j) auto
  next
    fix j b assume "best = Some (j, b)" then show "m \<le> b" using old by blast
  next
    fix j b assume "best = Some (j, b)" "k \<noteq> j" then show "m < b" using old by blast
  qed
next
  case (3 x cs i best)
  let ?b = "case best of None \<Rightarrow> Some (i, x) | Some (j, m) \<Rightarrow> if x < m then Some (i, x) else Some (j, m)"
  have inv: "\<forall>j b. ?b = Some (j, b) \<longrightarrow> j < Suc i"
    using "3.prems"(2) by (auto split: option.splits if_splits)
  have run: "scan_min cs (Suc i) ?b = Some (k, m)" using "3.prems"(1) by simp
  note IH = "3.IH"[OF run inv]
  have tail: "\<forall>j < length cs. \<forall>y. cs ! j = Some y \<longrightarrow> m \<le> y \<and> (Suc i + j < k \<longrightarrow> m < y)"
    using IH by blast
  have bst: "\<forall>j b. ?b = Some (j, b) \<longrightarrow> m \<le> b \<and> (k \<noteq> j \<longrightarrow> m < b)"
    using IH by blast
  have head: "m \<le> x \<and> (i < k \<longrightarrow> m < x)"
    using bst "3.prems"(2) by (cases best) (auto split: if_splits)
  have old: "\<forall>j b. best = Some (j, b) \<longrightarrow> m \<le> b \<and> (k \<noteq> j \<longrightarrow> m < b)"
    using bst by (cases best) (auto split: if_splits)
  show ?case
  proof (intro conjI allI impI)
    fix j y assume j: "j < length (Some x # cs)" and y: "(Some x # cs) ! j = Some y"
    show "m \<le> y" using j y head tail by (cases j) auto
  next
    fix j y assume j: "j < length (Some x # cs)" and y: "(Some x # cs) ! j = Some y" and "i + j < k"
    then show "m < y" using head tail by (cases j) auto
  next
    fix j b assume "best = Some (j, b)" then show "m \<le> b" using old by blast
  next
    fix j b assume "best = Some (j, b)" "k \<noteq> j" then show "m < b" using old by blast
  qed
qed

lemma argmin_Inr:
  assumes "argmin cs = Inr i"
  shows "i < length cs \<and> (\<exists>m. cs ! i = Some m \<and>
           (\<forall>j < length cs. \<forall>y. cs ! j = Some y \<longrightarrow> m \<le> y \<and> (j < i \<longrightarrow> m < y)))"
proof -
  from assms obtain m where s: "scan_min cs 0 None = Some (i, m)"
    by (auto simp: argmin_def split: option.splits)
  from scan_min_index[OF s] have "i < length cs" "cs ! i = Some m" by auto
  moreover from scan_min_least[OF s] have
    "\<forall>j < length cs. \<forall>y. cs ! j = Some y \<longrightarrow> m \<le> y \<and> (j < i \<longrightarrow> m < y)" by simp
  ultimately show ?thesis by blast
qed

lemma argmin_Inl:
  "argmin cs = Inl e \<longleftrightarrow> e = ValueError \<and> (\<forall>c \<in> set cs. c = None)"
  using scan_min_None[of cs 0 None]
  by (auto simp: argmin_def split: option.splits)

section \<open>Properties of add_gps_coordinates\<close>

lemma length_scatter [simp]: "length (scatter arr ps) = length arr"
  by (induction arr ps rule: scatter.induct) auto

lemma scatter_untouched: "i \<notin> fst ` set ps \<Longrightarrow> scatter arr ps ! i = arr ! i"
  by (induction arr ps rule: scatter.induct) auto

lemma scatter_append: "scatter arr (ps @ qs) = scatter (scatter arr ps) qs"
  by (induction arr ps rule: scatter.induct) auto

lemma scatter_last_write:
  "i < length arr \<Longrightarrow> i \<notin> fst ` set qs \<Longrightarrow> scatter arr (ps @ (i, x) # qs) ! i = x"
  by (simp add: scatter_append scatter_untouched)

lemma scatter_present:
  "\<forall>p \<in> set ps. fst p < length arr \<and> snd p \<noteq> None \<Longrightarrow>
   {j. j < length arr \<and> scatter arr ps ! j \<noteq> None}
     = {j. j < length arr \<and> arr ! j \<noteq> None} \<union> fst ` set ps"
proof (induction arr ps rule: scatter.induct)
  case (1 arr)
  then show ?case by simp
next
  case (2 arr i x ps)
  have "{j. j < length arr \<and> scatter (arr[i := x]) ps ! j \<noteq> None}
        = {j. j < length (arr[i := x]) \<and> (arr[i := x]) ! j \<noteq> None} \<union> fst ` set ps"
    using "2.IH" "2.prems" by simp
  also have "{j. j < length (arr[i := x]) \<and> (arr[i := x]) ! j \<noteq> None}
        = insert i {j. j < length arr \<and> arr ! j \<noteq> None}"
    using "2.prems" by (auto simp: nth_list_update)
  finally show ?case by auto
qed

lemma count_present_scatter:
  assumes "\<forall>p \<in> set ps. fst p < n \<and> snd p \<noteq> None"
  shows "count_present (scatter (replicate n None) ps) = card (fst ` set ps)"
proof -
  have "count_present (scatter (replicate n None) ps)
        = card {j. j < length (replicate n None :: cell list) \<and> scatter (replicate n None) ps ! j \<noteq> None}"
    by (simp add: count_present_def length_filter_conv_card)
  also have "\<dots> = card ({j. j < length (replicate n None :: cell list) \<and> replicate n None ! j \<noteq> (None :: cell)} \<union> fst ` set ps)"
    using scatter_present[of ps "replicate n None"] assms by simp
  also have "{j. j < length (replicate n None :: cell list) \<and> replicate n None ! j \<noteq> (None :: cell)} = {}"
    by auto
  finally show ?thesis by simp
qed

lemma scatter_zip_last:
  assumes "length idx = length xs" "k < length idx" "idx ! k = i" "i < length arr"
    and "\<forall>k'. k < k' \<and> k' < length idx \<longrightarrow> idx ! k' \<noteq> i"
  shows "scatter arr (zip idx xs) ! i = xs ! k"
proof -
  let ?ps = "zip idx xs"
  have k: "k < length ?ps" using assms by simp
  have split: "?ps = take k ?ps @ (i, xs ! k) # drop (Suc k) ?ps"
    using id_take_nth_drop[OF k] assms by simp
  have "i \<notin> fst ` set (drop (Suc k) ?ps)"
  proof
    assume "i \<in> fst ` set (drop (Suc k) ?ps)"
    then obtain p where p: "p \<in> set (drop (Suc k) ?ps)" "fst p = i" by auto
    then obtain j where j: "j < length (drop (Suc k) ?ps)" "drop (Suc k) ?ps ! j = p"
      by (auto simp: in_set_conv_nth)
    then have "Suc k + j < length idx" using assms(1) by simp
    moreover have "idx ! (Suc k + j) = i" using j p assms(1) by auto
    ultimately show False using assms(5) by auto
  qed
  from scatter_last_write[OF assms(4) this, of "take k ?ps" "xs ! k"] split
  show ?thesis by simp
qed

lemma zip_fst_set: "length idx = length xs \<Longrightarrow> fst ` set (zip idx xs) = set idx"
  by (metis map_fst_zip set_map)

lemma find_nearest_index_cong:
  "map_of ds' ''ctd_time'' = map_of ds ''ctd_time'' \<Longrightarrow>
   find_nearest_index ds' t = find_nearest_index ds t"
  by (simp add: find_nearest_index_def)

lemma find_nearest_index_argmin:
  assumes "find_nearest_index ds gps_time = Inr i"
    and "map_of ds ''ctd_time'' = Some ctd_time"
  shows "i < length (vals ctd_time) \<and>
         (\<exists>d. abs_diff (vals ctd_time ! i) gps_time = Some d \<and>
              (\<forall>j < length (vals ctd_time). \<forall>d'.
                  abs_diff (vals ctd_time ! j) gps_time = Some d' \<longrightarrow> d \<le> d' \<and> (j < i \<longrightarrow> d < d')))"
proof -
  let ?d = "map (\<lambda>t. abs_diff t gps_time) (vals ctd_time)"
  from assms have "argmin ?d = Inr i" by (simp add: find_nearest_index_def)
  from argmin_Inr[OF this] show ?thesis by auto
qed

lemma find_nearest_index_total:
  assumes "map_of ds ''ctd_time'' = Some ctd_time" and "Some x \<in> set (vals ctd_time)"
  shows "\<exists>i. find_nearest_index ds (Some t) = Inr i \<and> i < length (vals ctd_time)"
proof -
  let ?d = "map (\<lambda>c. abs_diff c (Some t)) (vals ctd_time)"
  have "abs_diff (Some x) (Some t) = Some \<bar>x - t\<bar>" by (simp add: abs_diff_def)
  moreover have "abs_diff (Some x) (Some t) \<in> set ?d" using assms(2) by force
  ultimately have "Some \<bar>x - t\<bar> \<in> set ?d" by simp
  then have nn: "\<not> (\<forall>c \<in> set ?d. c = None)" by blast
  have "\<exists>i. argmin ?d = Inr i"
  proof (cases "argmin ?d")
    case (Inl e)
    with argmin_Inl[of ?d e] nn show ?thesis by blast
  next
    case (Inr i)
    then show ?thesis by blast
  qed
  then obtain i where i: "argmin ?d = Inr i" by blast
  from argmin_Inr[OF i] have "i < length (vals ctd_time)" by simp
  with i assms(1) show ?thesis by (simp add: find_nearest_index_def)
qed

lemma find_nearest_index_present:
  assumes "find_nearest_index ds t = Inr i" and "map_of ds ''ctd_time'' = Some ctd_time"
  shows "\<exists>x. Some x \<in> set (vals ctd_time)"
proof -
  from find_nearest_index_argmin[OF assms] obtain d where
    i: "i < length (vals ctd_time)" and d: "abs_diff (vals ctd_time ! i) t = Some d" by blast
  from d obtain x where "vals ctd_time ! i = Some x"
    by (auto simp: abs_diff_def split: option.splits)
  with i show ?thesis by (metis nth_mem)
qed

lemma set_item_Inr:
  "set_item ds name i x = Inr ds' \<Longrightarrow>
   \<exists>v. map_of ds name = Some v \<and> i < length (vals v)
        \<and> map_of ds' name = Some (v\<lparr>vals := (vals v)[i := x]\<rparr>)
        \<and> (\<forall>k. k \<noteq> name \<longrightarrow> map_of ds' k = map_of ds k)"
  by (auto simp: set_item_def update_conv' split: option.splits if_splits)

lemma fill_gps_spec:
  assumes "fill_gps fxs ds = Inr ds'"
    and "map_of ds ''gps_lat'' = Some vlat"
    and "map_of ds ''gps_lon'' = Some vlon"
    and "map_of ds ''gps_time'' = Some vtime"
  shows "\<exists>idx. map (\<lambda>f. find_nearest_index ds (fst f)) fxs = map Inr idx
     \<and> (\<forall>i \<in> set idx. i < length (vals vlat) \<and> i < length (vals vlon) \<and> i < length (vals vtime))
     \<and> map_of ds' ''gps_lat''
         = Some (vlat\<lparr>vals := scatter (vals vlat) (zip idx (map (\<lambda>f. fst (snd f)) fxs))\<rparr>)
     \<and> map_of ds' ''gps_lon''
         = Some (vlon\<lparr>vals := scatter (vals vlon) (zip idx (map (\<lambda>f. snd (snd f)) fxs))\<rparr>)
     \<and> map_of ds' ''gps_time''
         = Some (vtime\<lparr>vals := scatter (vals vtime) (zip idx (map fst fxs))\<rparr>)
     \<and> (\<forall>k. k \<noteq> ''gps_lat'' \<longrightarrow> k \<noteq> ''gps_lon'' \<longrightarrow> k \<noteq> ''gps_time''
            \<longrightarrow> map_of ds' k = map_of ds k)"
  using assms
proof (induction fxs arbitrary: ds vlat vlon vtime)
  case Nil
  then show ?case by simp
next
  case (Cons f fxs)
  obtain t la lo where f: "f = (t, la, lo)" by (cases f) auto
  from Cons.prems(1) f obtain i ds1 ds2 ds3 where
    i: "find_nearest_index ds t = Inr i"
    and s1: "set_item ds ''gps_lat'' i la = Inr ds1"
    and s2: "set_item ds1 ''gps_lon'' i lo = Inr ds2"
    and s3: "set_item ds2 ''gps_time'' i t = Inr ds3"
    and rest: "fill_gps fxs ds3 = Inr ds'"
    by (auto split: sum.splits)
  from set_item_Inr[OF s1] Cons.prems(2) have
    b1: "i < length (vals vlat)"
    and m1: "map_of ds1 ''gps_lat'' = Some (vlat\<lparr>vals := (vals vlat)[i := la]\<rparr>)"
    and f1: "\<forall>k. k \<noteq> ''gps_lat'' \<longrightarrow> map_of ds1 k = map_of ds k"
    by auto
  have "map_of ds1 ''gps_lon'' = Some vlon" using f1 Cons.prems(3) by simp
  from set_item_Inr[OF s2] this have
    b2: "i < length (vals vlon)"
    and m2: "map_of ds2 ''gps_lon'' = Some (vlon\<lparr>vals := (vals vlon)[i := lo]\<rparr>)"
    and f2: "\<forall>k. k \<noteq> ''gps_lon'' \<longrightarrow> map_of ds2 k = map_of ds1 k"
    by auto
  have "map_of ds2 ''gps_time'' = Some vtime" using f1 f2 Cons.prems(4) by simp
  from set_item_Inr[OF s3] this have
    b3: "i < length (vals vtime)"
    and m3: "map_of ds3 ''gps_time'' = Some (vtime\<lparr>vals := (vals vtime)[i := t]\<rparr>)"
    and f3: "\<forall>k. k \<noteq> ''gps_time'' \<longrightarrow> map_of ds3 k = map_of ds2 k"
    by auto
  have l1: "map_of ds3 ''gps_lat'' = Some (vlat\<lparr>vals := (vals vlat)[i := la]\<rparr>)"
    using m1 f2 f3 by simp
  have l2: "map_of ds3 ''gps_lon'' = Some (vlon\<lparr>vals := (vals vlon)[i := lo]\<rparr>)"
    using m2 f3 by simp
  have fr: "\<forall>k. k \<noteq> ''gps_lat'' \<longrightarrow> k \<noteq> ''gps_lon'' \<longrightarrow> k \<noteq> ''gps_time''
            \<longrightarrow> map_of ds3 k = map_of ds k"
    using f1 f2 f3 by simp
  have ct: "map_of ds3 ''ctd_time'' = map_of ds ''ctd_time''"
    using fr by simp
  from Cons.IH[OF rest l1 l2 m3] obtain idx where
    idx: "map (\<lambda>f. find_nearest_index ds3 (fst f)) fxs = map Inr idx"
    and bnd: "\<forall>j \<in> set idx. j < length (vals vlat) \<and> j < length (vals vlon) \<and> j < length (vals vtime)"
    and r1: "map_of ds' ''gps_lat'' = Some (vlat\<lparr>vals := scatter ((vals vlat)[i := la]) (zip idx (map (\<lambda>f. fst (snd f)) fxs))\<rparr>)"
    and r2: "map_of ds' ''gps_lon'' = Some (vlon\<lparr>vals := scatter ((vals vlon)[i := lo]) (zip idx (map (\<lambda>f. snd (snd f)) fxs))\<rparr>)"
    and r3: "map_of ds' ''gps_time'' = Some (vtime\<lparr>vals := scatter ((vals vtime)[i := t]) (zip idx (map fst fxs))\<rparr>)"
    and r4: "\<forall>k. k \<noteq> ''gps_lat'' \<longrightarrow> k \<noteq> ''gps_lon'' \<longrightarrow> k \<noteq> ''gps_time''
            \<longrightarrow> map_of ds' k = map_of ds3 k"
    by (elim exE conjE) simp
  have "map (\<lambda>f. find_nearest_index ds (fst f)) (f # fxs) = map Inr (i # idx)"
    using idx i f by (simp add: find_nearest_index_cong[OF ct])
  moreover have "\<forall>j \<in> set (i # idx). j < length (vals vlat) \<and> j < length (vals vlon) \<and> j < length (vals vtime)"
    using bnd b1 b2 b3 by simp
  moreover have "map_of ds' ''gps_lat'' = Some (vlat\<lparr>vals := scatter (vals vlat) (zip (i # idx) (map (\<lambda>f. fst (snd f)) (f # fxs)))\<rparr>)"
    using r1 f by simp
  moreover have "map_of ds' ''gps_lon'' = Some (vlon\<lparr>vals := scatter (vals vlon) (zip (i # idx) (map (\<lambda>f. snd (snd f)) (f # fxs)))\<rparr>)"
    using r2 f by simp
  moreover have "map_of ds' ''gps_time'' = Some (vtime\<lparr>vals := scatter (vals vtime) (zip (i # idx) (map fst (f # fxs)))\<rparr>)"
    using r3 f by simp
  moreover have "\<forall>k. k \<noteq> ''gps_lat'' \<longrightarrow> k \<noteq> ''gps_lon'' \<longrightarrow> k \<noteq> ''gps_time''
            \<longrightarrow> map_of ds' k = map_of ds k"
    using r4 fr by simp
  ultimately show ?case by blast
qed

lemma fill_gps_total:
  assumes "\<forall>f \<in> set fxs. \<exists>i. find_nearest_index ds (fst f) = Inr i \<and> i < n"
    and "map_of ds ''gps_lat'' = Some vlat" "length (vals vlat) = n"
    and "map_of ds ''gps_lon'' = Some vlon" "length (vals vlon) = n"
    and "map_of ds ''gps_time'' = Some vtime" "length (vals vtime) = n"
  shows "\<exists>ds'. fill_gps fxs ds = Inr ds'"
  using assms
proof (induction fxs arbitrary: ds vlat vlon vtime)
  case Nil
  then show ?case by simp
next
  case (Cons f fxs)
  obtain t la lo where f: "f = (t, la, lo)" by (cases f) auto
  from Cons.prems(1) f obtain i where i: "find_nearest_index ds t = Inr i" "i < n" by auto
  let ?ds1 = "AList.update ''gps_lat'' (vlat\<lparr>vals := (vals vlat)[i := la]\<rparr>) ds"
  let ?ds2 = "AList.update ''gps_lon'' (vlon\<lparr>vals := (vals vlon)[i := lo]\<rparr>) ?ds1"
  let ?ds3 = "AList.update ''gps_time'' (vtime\<lparr>vals := (vals vtime)[i := t]\<rparr>) ?ds2"
  have s1: "set_item ds ''gps_lat'' i la = Inr ?ds1"
    using Cons.prems i by (simp add: set_item_def)
  have s2: "set_item ?ds1 ''gps_lon'' i lo = Inr ?ds2"
    using Cons.prems i by (simp add: set_item_def update_conv')
  have s3: "set_item ?ds2 ''gps_time'' i t = Inr ?ds3"
    using Cons.prems i by (simp add: set_item_def update_conv')
  have ct: "map_of ?ds3 ''ctd_time'' = map_of ds ''ctd_time''"
    by (simp add: update_conv')
  have "\<forall>f \<in> set fxs. \<exists>i. find_nearest_index ?ds3 (fst f) = Inr i \<and> i < n"
    using Cons.prems(1) by (simp add: find_nearest_index_cong[OF ct])
  from Cons.IH[OF this, of "vlat\<lparr>vals := (vals vlat)[i := la]\<rparr>" "vlon\<lparr>vals := (vals vlon)[i := lo]\<rparr>"
      "vtime\<lparr>vals := (vals vtime)[i := t]\<rparr>"] Cons.prems
  obtain ds' where "fill_gps fxs ?ds3 = Inr ds'"
    by (auto simp: update_conv')
  then show ?case using f i s1 s2 s3 by simp
qed

lemma ds_dims_Cons: "ds_dims (p # ds) = zip (dims (snd p)) (shape (snd p)) @ ds_dims ds"
  by (cases p) (simp add: ds_dims_def)

lemma dim_size_update_full_nan:
  "map_of (ds_dims ds) sg_data_point = Some n \<Longrightarrow>
   map_of (ds_dims (AList.update k (full_nan n) ds)) sg_data_point = Some n"
proof (induction ds)
  case Nil
  then show ?case by (simp add: ds_dims_def)
next
  case (Cons p ds)
  show ?case
  proof (cases "fst p = k")
    case True
    then show ?thesis by (simp add: ds_dims_Cons full_nan_def)
  next
    case False
    show ?thesis
    proof (cases "map_of (zip (dims (snd p)) (shape (snd p))) sg_data_point")
      case None
      with Cons.prems have "map_of (ds_dims ds) sg_data_point = Some n"
        by (simp add: ds_dims_Cons map_add_def)
      from Cons.IH[OF this] None False show ?thesis
        by (simp add: ds_dims_Cons map_add_def)
    next
      case (Some m)
      with Cons.prems False show ?thesis
        by (simp add: ds_dims_Cons map_add_def)
    qed
  qed
qed

lemma dim_size_update:
  "dim_size ds sg_data_point = Inr n \<Longrightarrow>
   dim_size (AList.update k (full_nan n) ds) sg_data_point = Inr n"
  using dim_size_update_full_nan[of ds n k]
  by (auto simp: dim_size_def split: option.splits)

lemma log_values_cong:
  "map_of ds' name = map_of ds name \<Longrightarrow> log_values ds' name = log_values ds name"
  by (simp add: log_values_def)

lemma log_values_fix_array:
  "fix_array ds name xs \<Longrightarrow> log_values ds name = Inr (map Some xs)"
  by (auto simp: fix_array_def log_values_def)

lemma add_gps_coordinates_unfold:
  assumes n: "dim_size ds sg_data_point = Inr n" and g: "gps_fixes ds ts lats lons"
  shows "add_gps_coordinates ds
         = fill_gps (zip (map Some ts) (zip (map Some lats) (map Some lons))) (gps_start ds n)"
proof -
  let ?ds1 = "AList.update ''gps_lat'' (full_nan n) ds"
  let ?ds2 = "AList.update ''gps_lon'' (full_nan n) ?ds1"
  let ?ds3 = "AList.update ''gps_time'' (full_nan n) ?ds2"
  have n1: "dim_size ?ds1 sg_data_point = Inr n" by (rule dim_size_update[OF n])
  have n2: "dim_size ?ds2 sg_data_point = Inr n" by (rule dim_size_update[OF n1])
  have "map_of ?ds3 ''log_gps_time'' = map_of ds ''log_gps_time''" by (simp add: update_conv')
  from log_values_cong[OF this] have l1: "log_values ?ds3 ''log_gps_time'' = Inr (map Some ts)"
    using g by (simp add: gps_fixes_def log_values_fix_array)
  have "map_of ?ds3 ''log_gps_lat'' = map_of ds ''log_gps_lat''" by (simp add: update_conv')
  from log_values_cong[OF this] have l2: "log_values ?ds3 ''log_gps_lat'' = Inr (map Some lats)"
    using g by (simp add: gps_fixes_def log_values_fix_array)
  have "map_of ?ds3 ''log_gps_lon'' = map_of ds ''log_gps_lon''" by (simp add: update_conv')
  from log_values_cong[OF this] have l3: "log_values ?ds3 ''log_gps_lon'' = Inr (map Some lons)"
    using g by (simp add: gps_fixes_def log_values_fix_array)
  show ?thesis
    by (simp add: add_gps_coordinates_def n n1 n2 l1 l2 l3 gps_start_def Let_def)
qed

lemma gps_start_lookup:
  "map_of (gps_start ds n) ''gps_lat'' = Some (full_nan n)"
  "map_of (gps_start ds n) ''gps_lon'' = Some (full_nan n)"
  "map_of (gps_start ds n) ''gps_time'' = Some (full_nan n)"
  "k \<noteq> ''gps_lat'' \<Longrightarrow> k \<noteq> ''gps_lon'' \<Longrightarrow> k \<noteq> ''gps_time''
     \<Longrightarrow> map_of (gps_start ds n) k = map_of ds k"
  by (simp_all add: gps_start_def update_conv')

lemma add_gps_coordinates_spec:
  assumes n: "dim_size ds sg_data_point = Inr n" and g: "gps_fixes ds ts lats lons"
    and run: "add_gps_coordinates ds = Inr ds'"
  shows "\<exists>idx. map (\<lambda>t. find_nearest_index ds (Some t)) ts = map Inr idx
     \<and> (\<forall>i \<in> set idx. i < n)
     \<and> map_of ds' ''gps_lat''
         = Some ((full_nan n)\<lparr>vals := scatter (replicate n None) (zip idx (map Some lats))\<rparr>)
     \<and> map_of ds' ''gps_lon''
         = Some ((full_nan n)\<lparr>vals := scatter (replicate n None) (zip idx (map Some lons))\<rparr>)
     \<and> map_of ds' ''gps_time''
         = Some ((full_nan n)\<lparr>vals := scatter (replicate n None) (zip idx (map Some ts))\<rparr>)
     \<and> (\<forall>k. k \<noteq> ''gps_lat'' \<longrightarrow> k \<noteq> ''gps_lon'' \<longrightarrow> k \<noteq> ''gps_time''
            \<longrightarrow> map_of ds' k = map_of ds k)"
proof -
  let ?fxs = "zip (map Some ts) (zip (map Some lats) (map Some lons))"
  have len: "length lats = length ts" "length lons = length ts"
    using g by (simp_all add: gps_fixes_def)
  have p1: "map fst ?fxs = map Some ts" using len by (simp add: map_fst_zip)
  have p2: "map (\<lambda>f. fst (snd f)) ?fxs = map Some lats"
    using len by (simp add: list_eq_iff_nth_eq)
  have p3: "map (\<lambda>f. snd (snd f)) ?fxs = map Some lons"
    using len by (simp add: list_eq_iff_nth_eq)
  have p0: "map (\<lambda>f. find_nearest_index ds (fst f)) ?fxs = map (\<lambda>t. find_nearest_index ds (Some t)) ts"
    using len by (simp add: list_eq_iff_nth_eq)
  have run': "fill_gps ?fxs (gps_start ds n) = Inr ds'"
    using run add_gps_coordinates_unfold[OF n g] by simp
  have ct: "map_of (gps_start ds n) ''ctd_time'' = map_of ds ''ctd_time''"
    by (simp add: gps_start_lookup)
  from fill_gps_spec[OF run' gps_start_lookup(1) gps_start_lookup(2) gps_start_lookup(3)]
  obtain idx where
    idx: "map (\<lambda>f. find_nearest_index (gps_start ds n) (fst f)) ?fxs = map Inr idx"
    and bnd: "\<forall>i \<in> set idx. i < length (vals (full_nan n))"
    and r1: "map_of ds' ''gps_lat'' = Some ((full_nan n)\<lparr>vals := scatter (vals (full_nan n)) (zip idx (map (\<lambda>f. fst (snd f)) ?fxs))\<rparr>)"
    and r2: "map_of ds' ''gps_lon'' = Some ((full_nan n)\<lparr>vals := scatter (vals (full_nan n)) (zip idx (map (\<lambda>f. snd (snd f)) ?fxs))\<rparr>)"
    and r3: "map_of ds' ''gps_time'' = Some ((full_nan n)\<lparr>vals := scatter (vals (full_nan n)) (zip idx (map fst ?fxs))\<rparr>)"
    and r4: "\<forall>k. k \<noteq> ''gps_lat'' \<longrightarrow> k \<noteq> ''gps_lon'' \<longrightarrow> k \<noteq> ''gps_time''
            \<longrightarrow> map_of ds' k = map_of (gps_start ds n) k"
    by (elim exE conjE) (rule that; simp)
  have v: "vals (full_nan n) = replicate n None" by (simp add: full_nan_def)
  have "map (\<lambda>t. find_nearest_index ds (Some t)) ts = map Inr idx"
    using idx p0 by (simp add: find_nearest_index_cong[OF ct])
  moreover have "\<forall>i \<in> set idx. i < n" using bnd v by simp
  moreover note r1[unfolded p2 v] r2[unfolded p3 v] r3[unfolded p1 v]
  moreover have "\<forall>k. k \<noteq> ''gps_lat'' \<longrightarrow> k \<noteq> ''gps_lon'' \<longrightarrow> k \<noteq> ''gps_time''
            \<longrightarrow> map_of ds' k = map_of ds k"
    using r4 by (simp add: gps_start_lookup)
  ultimately show ?thesis by blast
qed

lemma add_gps_coordinates_total:
  assumes n: "dim_size ds sg_data_point = Inr n" and g: "gps_fixes ds ts lats lons"
    and ok: "ts = [] \<or> (\<exists>ctd_time x. map_of ds ''ctd_time'' = Some ctd_time
                 \<and> length (vals ctd_time) = n \<and> Some x \<in> set (vals ctd_time))"
  shows "\<exists>ds'. add_gps_coordinates ds = Inr ds'"
proof -
  let ?fxs = "zip (map Some ts) (zip (map Some lats) (map Some lons))"
  have ct: "map_of (gps_start ds n) ''ctd_time'' = map_of ds ''ctd_time''"
    by (simp add: gps_start_lookup)
  have "\<forall>f \<in> set ?fxs. \<exists>i. find_nearest_index (gps_start ds n) (fst f) = Inr i \<and> i < n"
  proof
    fix f assume f: "f \<in> set ?fxs"
    then have "ts \<noteq> []" by auto
    with ok obtain ctd_time x where c: "map_of ds ''ctd_time'' = Some ctd_time"
      "length (vals ctd_time) = n" "Some x \<in> set (vals ctd_time)" by blast
    have "fst f \<in> set (map Some ts)"
      by (rule set_zip_leftD[of _ "snd f"]) (use f in simp)
    then obtain t where "fst f = Some t" by auto
    with find_nearest_index_total[OF c(1) c(3), of t] c(2)
    show "\<exists>i. find_nearest_index (gps_start ds n) (fst f) = Inr i \<and> i < n"
      by (simp add: find_nearest_index_cong[OF ct])
  qed
  from fill_gps_total[OF this gps_start_lookup(1) _ gps_start_lookup(2) _ gps_start_lookup(3)]
  show ?thesis
    by (simp add: add_gps_coordinates_unfold[OF n g] full_nan_def)
qed

lemma mapped_indices:
  assumes "map (\<lambda>t. find_nearest_index ds (Some t)) ts = map Inr idx"
  shows "length idx = length ts"
    and "k < length ts \<Longrightarrow> find_nearest_index ds (Some (ts ! k)) = Inr (idx ! k)"
proof -
  show l: "length idx = length ts" using assms by (metis length_map)
  show "k < length ts \<Longrightarrow> find_nearest_index ds (Some (ts ! k)) = Inr (idx ! k)"
    using assms l by (metis nth_map)
qed

text \<open>The example records, evaluated.\<close>

lemmas eval_defs = add_gps_coordinates_def dim_size_def ds_dims_def full_nan_def
  log_values_def find_nearest_index_def argmin_def abs_diff_def set_item_def mk_var_def
  sg_data_point_def nan_var_def Let_def

lemma dive_A_run: "add_gps_coordinates dive_A = Inr dive_A_gps"
  by (simp add: dive_A_def dive_A_gps_def eval_defs)

lemma dive_C_run: "add_gps_coordinates dive_C = Inr dive_C_gps"
  by (simp add: dive_C_def dive_C_gps_def eval_defs)

lemma dive_A_dim: "dim_size dive_A sg_data_point = Inr 3"
  by (simp add: dive_A_def eval_defs)

lemma dive_C_dim: "dim_size dive_C sg_data_point = Inr 3"
  by (simp add: dive_C_def eval_defs)

lemma dive_C_fixes: "gps_fixes dive_C [110, 120] [10, 11] [20, 21]"
  by (simp add: dive_C_def gps_fixes_def fix_array_def mk_var_def)

lemma scatter_written:
  assumes "\<forall>p \<in> set ps. fst p < length arr \<and> snd p \<noteq> None" and "i \<in> fst ` set ps"
  shows "scatter arr ps ! i \<noteq> None"
proof -
  from assms obtain p where "p \<in> set ps" "fst p = i" by auto
  with assms(1) have "i < length arr" by auto
  with scatter_present[OF assms(1)] assms(2) show ?thesis by blast
qed

lemma log_values_fix_cells:
  "fix_cells ds name cs \<Longrightarrow> log_values ds name = Inr cs"
  by (auto simp: fix_cells_def log_values_def)

lemma add_gps_coordinates_unfold_cells:
  assumes n: "dim_size ds sg_data_point = Inr n" and g: "gps_fix_cells ds ts lats lons"
  shows "add_gps_coordinates ds = fill_gps (zip ts (zip lats lons)) (gps_start ds n)"
proof -
  let ?ds1 = "AList.update ''gps_lat'' (full_nan n) ds"
  let ?ds2 = "AList.update ''gps_lon'' (full_nan n) ?ds1"
  let ?ds3 = "AList.update ''gps_time'' (full_nan n) ?ds2"
  have n1: "dim_size ?ds1 sg_data_point = Inr n" by (rule dim_size_update[OF n])
  have n2: "dim_size ?ds2 sg_data_point = Inr n" by (rule dim_size_update[OF n1])
  have "map_of ?ds3 ''log_gps_time'' = map_of ds ''log_gps_time''" by (simp add: update_conv')
  from log_values_cong[OF this] have l1: "log_values ?ds3 ''log_gps_time'' = Inr ts"
    using g by (simp add: gps_fix_cells_def log_values_fix_cells)
  have "map_of ?ds3 ''log_gps_lat'' = map_of ds ''log_gps_lat''" by (simp add: update_conv')
  from log_values_cong[OF this] have l2: "log_values ?ds3 ''log_gps_lat'' = Inr lats"
    using g by (simp add: gps_fix_cells_def log_values_fix_cells)
  have "map_of ?ds3 ''log_gps_lon'' = map_of ds ''log_gps_lon''" by (simp add: update_conv')
  from log_values_cong[OF this] have l3: "log_values ?ds3 ''log_gps_lon'' = Inr lons"
    using g by (simp add: gps_fix_cells_def log_values_fix_cells)
  show ?thesis
    by (simp add: add_gps_coordinates_def n n1 n2 l1 l2 l3 gps_start_def Let_def)
qed

lemma add_gps_coordinates_cells_spec:
  assumes n: "dim_size ds sg_data_point = Inr n" and g: "gps_fix_cells ds ts lats lons"
    and run: "add_gps_coordinates ds = Inr ds'"
  shows "\<exists>idx. map (find_nearest_index ds) ts = map Inr idx
     \<and> (\<forall>i \<in> set idx. i < n)
     \<and> map_of ds' ''gps_lat''
         = Some ((full_nan n)\<lparr>vals := scatter (replicate n None) (zip idx lats)\<rparr>)
     \<and> map_of ds' ''gps_lon''
         = Some ((full_nan n)\<lparr>vals := scatter (replicate n None) (zip idx lons)\<rparr>)
     \<and> map_of ds' ''gps_time''
         = Some ((full_nan n)\<lparr>vals := scatter (replicate n None) (zip idx ts)\<rparr>)"
proof -
  let ?fxs = "zip ts (zip lats lons)"
  have len: "length lats = length ts" "length lons = length ts"
    using g by (simp_all add: gps_fix_cells_def)
  have p1: "map fst ?fxs = ts" using len by (simp add: map_fst_zip)
  have p2: "map (\<lambda>f. fst (snd f)) ?fxs = lats"
    using len by (simp add: list_eq_iff_nth_eq)
  have p3: "map (\<lambda>f. snd (snd f)) ?fxs = lons"
    using len by (simp add: list_eq_iff_nth_eq)
  have p0: "map (\<lambda>f. find_nearest_index ds (fst f)) ?fxs = map (find_nearest_index ds) ts"
    using len by (simp add: list_eq_iff_nth_eq)
  have run': "fill_gps ?fxs (gps_start ds n) = Inr ds'"
    using run add_gps_coordinates_unfold_cells[OF n g] by simp
  have ct: "map_of (gps_start ds n) ''ctd_time'' = map_of ds ''ctd_time''"
    by (simp add: gps_start_lookup)
  from fill_gps_spec[OF run' gps_start_lookup(1) gps_start_lookup(2) gps_start_lookup(3)]
  obtain idx where
    idx: "map (\<lambda>f. find_nearest_index (gps_start ds n) (fst f)) ?fxs = map Inr idx"
    and bnd: "\<forall>i \<in> set idx. i < length (vals (full_nan n))"
    and r1: "map_of ds' ''gps_lat'' = Some ((full_nan n)\<lparr>vals := scatter (vals (full_nan n)) (zip idx (map (\<lambda>f. fst (snd f)) ?fxs))\<rparr>)"
    and r2: "map_of ds' ''gps_lon'' = Some ((full_nan n)\<lparr>vals := scatter (vals (full_nan n)) (zip idx (map (\<lambda>f. snd (snd f)) ?fxs))\<rparr>)"
    and r3: "map_of ds' ''gps_time'' = Some ((full_nan n)\<lparr>vals := scatter (vals (full_nan n)) (zip idx (map fst ?fxs))\<rparr>)"
    by (elim exE conjE) (rule that; simp)
  have v: "vals (full_nan n) = replicate n None" by (simp add: full_nan_def)
  have "map (find_nearest_index ds) ts = map Inr idx"
    using idx p0 by (simp add: find_nearest_index_cong[OF ct])
  moreover have "\<forall>i \<in> set idx. i < n" using bnd v by simp
  moreover note r1[unfolded p2 v] r2[unfolded p3 v] r3[unfolded p1 v]
  ultimately show ?thesis by blast
qed

lemma mapped_cells:
  assumes "map (find_nearest_index ds) ts = map Inr idx"
  shows "length idx = length ts"
    and "k < length ts \<Longrightarrow> find_nearest_index ds (ts ! k) = Inr (idx ! k)"
proof -
  show l: "length idx = length ts" using assms by (metis length_map)
  show "k < length ts \<Longrightarrow> find_nearest_index ds (ts ! k) = Inr (idx ! k)"
    using assms l by (metis nth_map)
qed

lemma find_nearest_index_None: "find_nearest_index ds None \<noteq> Inr i"
proof (cases "map_of ds ''ctd_time''")
  case None
  then show ?thesis by (simp add: find_nearest_index_def)
next
  case (Some c)
  have "\<forall>d \<in> set (map (\<lambda>t. abs_diff t None) (vals c)). d = None"
    by (auto simp: abs_diff_def split: option.splits)
  then have "argmin (map (\<lambda>t. abs_diff t None) (vals c)) = Inl ValueError"
    using argmin_Inl by blast
  with Some show ?thesis by (simp add: find_nearest_index_def)
qed

lemma find_nearest_index_explicit:
  assumes "find_nearest_index ds (Some t) = Inr i"
    and "map_of ds ''ctd_time'' = Some ctd_time"
  shows "i < length (vals ctd_time) \<and>
         (\<exists>x. vals ctd_time ! i = Some x \<and>
              (\<forall>j < length (vals ctd_time). \<forall>y. vals ctd_time ! j = Some y
                  \<longrightarrow> \<bar>x - t\<bar> \<le> \<bar>y - t\<bar> \<and> (j < i \<longrightarrow> \<bar>x - t\<bar> < \<bar>y - t\<bar>)))"
proof -
  from find_nearest_index_argmin[OF assms] obtain d where
    i: "i < length (vals ctd_time)"
    and d: "abs_diff (vals ctd_time ! i) (Some t) = Some d"
    and m: "\<forall>j < length (vals ctd_time). \<forall>d'.
              abs_diff (vals ctd_time ! j) (Some t) = Some d' \<longrightarrow> d \<le> d' \<and> (j < i \<longrightarrow> d < d')"
    by blast
  from d obtain x where x: "vals ctd_time ! i = Some x" "d = \<bar>x - t\<bar>"
    by (auto simp: abs_diff_def split: option.splits)
  have "\<forall>j < length (vals ctd_time). \<forall>y. vals ctd_time ! j = Some y
          \<longrightarrow> \<bar>x - t\<bar> \<le> \<bar>y - t\<bar> \<and> (j < i \<longrightarrow> \<bar>x - t\<bar> < \<bar>y - t\<bar>)"
  proof (intro allI impI)
    fix j y assume j: "j < length (vals ctd_time)" and y: "vals ctd_time ! j = Some y"
    then have "abs_diff (vals ctd_time ! j) (Some t) = Some \<bar>y - t\<bar>" by (simp add: abs_diff_def)
    with m j x(2) show "\<bar>x - t\<bar> \<le> \<bar>y - t\<bar> \<and> (j < i \<longrightarrow> \<bar>x - t\<bar> < \<bar>y - t\<bar>)" by blast
  qed
  with i x(1) show ?thesis by blast
qed

lemma scatter_present_subset:
  "\<forall>p \<in> set ps. fst p < length arr \<Longrightarrow>
   {j. j < length arr \<and> scatter arr ps ! j \<noteq> None}
     \<subseteq> {j. j < length arr \<and> arr ! j \<noteq> None} \<union> fst ` set ps"
proof (induction arr ps rule: scatter.induct)
  case (1 arr)
  then show ?case by simp
next
  case (2 arr i x ps)
  have "{j. j < length arr \<and> scatter (arr[i := x]) ps ! j \<noteq> None}
        \<subseteq> {j. j < length (arr[i := x]) \<and> (arr[i := x]) ! j \<noteq> None} \<union> fst ` set ps"
    using "2.IH" "2.prems" by simp
  also have "{j. j < length (arr[i := x]) \<and> (arr[i := x]) ! j \<noteq> None}
        \<subseteq> insert i {j. j < length arr \<and> arr ! j \<noteq> None}"
    by (auto simp: nth_list_update split: if_splits)
  finally show ?case by auto
qed

lemma count_present_scatter_le:
  assumes "\<forall>p \<in> set ps. fst p < n"
  shows "count_present (scatter (replicate n None) ps) \<le> card (fst ` set ps)"
proof -
  have "count_present (scatter (replicate n None) ps)
        = card {j. j < length (replicate n None :: cell list) \<and> scatter (replicate n None) ps ! j \<noteq> None}"
    by (simp add: count_present_def length_filter_conv_card)
  also have "\<dots> \<le> card ({j. j < length (replicate n None :: cell list) \<and> replicate n None ! j \<noteq> (None :: cell)} \<union> fst ` set ps)"
    using scatter_present_subset[of ps "replicate n None"] assms
    by (intro card_mono) simp_all
  also have "{j. j < length (replicate n None :: cell list) \<and> replicate n None ! j \<noteq> (None :: cell)} = {}"
    by auto
  finally show ?thesis by simp
qed

lemma dive_F_run: "add_gps_coordinates dive_F = Inr dive_F_gps"
  by (simp add: dive_F_def dive_F_gps_def eval_defs)

lemma dive_F_dim: "dim_size dive_F sg_data_point = Inr 3"
  by (simp add: dive_F_def eval_defs)

lemma dive_F_cells: "gps_fix_cells dive_F [Some 150, Some 290] [Some 10, Some 12] [Some 20, Some 22]"
  by (simp add: dive_F_def gps_fix_cells_def fix_cells_def mk_var_def)

lemma dive_N_run: "add_gps_coordinates dive_N = Inr dive_N_gps"
  by (simp add: dive_N_def dive_N_gps_def eval_defs cell_var_def)

lemma dive_A_cells: "gps_fix_cells dive_A [Some 150] [Some 10] [Some 20]"
  by (simp add: dive_A_def gps_fix_cells_def fix_cells_def mk_var_def)

lemma dive_C_cells:
  "gps_fix_cells dive_C [Some 110, Some 120] [Some 10, Some 11] [Some 20, Some 21]"
  by (simp add: dive_C_def gps_fix_cells_def fix_cells_def mk_var_def)

text \<open>
  Claim C1. When \<^verbatim>\<open>add_gps_coordinates\<close> returns, every fix time is a number \<open>t\<close>, and
  the index computed for the fix (the result of \<^verbatim>\<open>find_nearest_index\<close>, at which the fix
  is written) is a position \<open>i\<close> of the measurement time array that holds a number \<open>x\<close>
  with \<open>\<bar>x - t\<bar>\<close> smallest among the numbers of the array, and strictly smaller than at
  every lower position: it is the lowest of the minimizing indices. The aligned fix time
  at that index is not missing.
\<close>

theorem find_nearest_index_first_argmin:
  assumes "dim_size ds sg_data_point = Inr n"
    and "gps_fix_cells ds ts lats lons"
    and "map_of ds ''ctd_time'' = Some ctd_time"
    and "add_gps_coordinates ds = Inr ds'"
    and "k < length ts"
  shows "\<exists>i t x v. ts ! k = Some t
           \<and> find_nearest_index ds (ts ! k) = Inr i
           \<and> i < length (vals ctd_time)
           \<and> vals ctd_time ! i = Some x
           \<and> (\<forall>j < length (vals ctd_time). \<forall>y. vals ctd_time ! j = Some y
                 \<longrightarrow> \<bar>x - t\<bar> \<le> \<bar>y - t\<bar> \<and> (j < i \<longrightarrow> \<bar>x - t\<bar> < \<bar>y - t\<bar>))
           \<and> map_of ds' ''gps_time'' = Some v \<and> vals v ! i \<noteq> None"
proof -
  from add_gps_coordinates_cells_spec[OF assms(1,2,4)] obtain idx where
    idx: "map (find_nearest_index ds) ts = map Inr idx"
    and bnd: "\<forall>i \<in> set idx. i < n"
    and r3: "map_of ds' ''gps_time''
         = Some ((full_nan n)\<lparr>vals := scatter (replicate n None) (zip idx ts)\<rparr>)"
    by blast
  note mi = mapped_cells[OF idx]
  have fni: "find_nearest_index ds (ts ! k) = Inr (idx ! k)" using mi(2) assms(5) .
  obtain t where t: "ts ! k = Some t"
    using fni find_nearest_index_None[of ds "idx ! k"] by (cases "ts ! k") auto
  have present: "\<forall>c \<in> set ts. c \<noteq> None"
  proof
    fix c assume "c \<in> set ts"
    then obtain k' where "k' < length ts" "ts ! k' = c" by (auto simp: in_set_conv_nth)
    with mi(2)[of k'] find_nearest_index_None[of ds "idx ! k'"] show "c \<noteq> None"
      by (cases c) auto
  qed
  have ok: "\<forall>p \<in> set (zip idx ts).
              fst p < length (replicate n (None :: cell)) \<and> snd p \<noteq> None"
  proof
    fix p assume "p \<in> set (zip idx ts)"
    then have m: "(fst p, snd p) \<in> set (zip idx ts)" by simp
    have "fst p \<in> set idx" by (rule set_zip_leftD[OF m])
    moreover have "snd p \<in> set ts" by (rule set_zip_rightD[OF m])
    ultimately show "fst p < length (replicate n (None :: cell)) \<and> snd p \<noteq> None"
      using bnd present by auto
  qed
  have "idx ! k \<in> set idx" using mi(1) assms(5) by simp
  then have "idx ! k \<in> fst ` set (zip idx ts)" using mi(1) by (simp add: zip_fst_set)
  from scatter_written[OF ok this]
  have w: "vals ((full_nan n)\<lparr>vals := scatter (replicate n None) (zip idx ts)\<rparr>) ! (idx ! k) \<noteq> None"
    by simp
  from find_nearest_index_explicit[OF fni[unfolded t] assms(3)] fni t r3 w
  show ?thesis by blast
qed

theorem find_nearest_index_first_argmin_witness:
  "find_nearest_index dive_F (Some 290) = Inr 2
   \<and> (\<exists>i t x v. [Some 150, Some 290] ! 1 = Some t
           \<and> find_nearest_index dive_F ([Some 150, Some 290] ! 1) = Inr i
           \<and> i < length (vals (mk_var sg_data_point [100, 200, 300]))
           \<and> vals (mk_var sg_data_point [100, 200, 300]) ! i = Some x
           \<and> (\<forall>j < length (vals (mk_var sg_data_point [100, 200, 300])). \<forall>y.
                 vals (mk_var sg_data_point [100, 200, 300]) ! j = Some y
                 \<longrightarrow> \<bar>x - t\<bar> \<le> \<bar>y - t\<bar> \<and> (j < i \<longrightarrow> \<bar>x - t\<bar> < \<bar>y - t\<bar>))
           \<and> map_of dive_F_gps ''gps_time'' = Some v \<and> vals v ! i \<noteq> None)"
proof -
  have h3: "map_of dive_F ''ctd_time'' = Some (mk_var sg_data_point [100, 200, 300])"
    by (simp add: dive_F_def)
  have h5: "1 < length [Some 150, Some (290 :: real)]" by simp
  have e: "find_nearest_index dive_F (Some 290) = Inr 2"
    by (simp add: dive_F_def eval_defs)
  from find_nearest_index_first_argmin[OF dive_F_dim dive_F_cells h3 dive_F_run h5] e show ?thesis by blast
qed

text \<open>
  Claim C4, as stated, fails: a dive with one fix, whose latitude is missing, has no two
  fixes at one index, and after \<^verbatim>\<open>add_gps_coordinates\<close> its aligned latitude has no entry
  that is not missing, while the number of fixes is 1.
\<close>

theorem missing_fix_latitude_lowers_count:
  "dim_size dive_N sg_data_point = Inr 3
   \<and> gps_fix_cells dive_N [Some 150] [None] [Some 20]
   \<and> add_gps_coordinates dive_N = Inr dive_N_gps
   \<and> map_of dive_N_gps ''gps_lat'' = Some (nan_var [None, None, None])
   \<and> count_present (vals (nan_var [None, None, None])) = 0
   \<and> length [Some (150 :: real)] = 1"
  by (simp add: dive_N_run)
     (simp add: dive_N_def dive_N_gps_def eval_defs gps_fix_cells_def fix_cells_def
       cell_var_def count_present_def)

text \<open>
  Claim C4, amended. After \<^verbatim>\<open>add_gps_coordinates\<close> on a record with \<open>n\<close> samples, each of
  \<^verbatim>\<open>gps_lat\<close>, \<^verbatim>\<open>gps_lon\<close> and \<^verbatim>\<open>gps_time\<close> lies on the measurement axis with exactly \<open>n\<close>
  entries, and every position to which no fix is mapped is missing. The number of entries
  that are not missing is the number of fixes when no two fixes are mapped to the same
  index and none of the fix values written to the array is missing, and it is strictly
  less than the number of fixes when two fixes are mapped to the same index.
\<close>

theorem add_gps_coordinates_shape_and_count:
  assumes "dim_size ds sg_data_point = Inr n"
    and "gps_fix_cells ds ts lats lons"
    and "add_gps_coordinates ds = Inr ds'"
    and "(name, xs) \<in> {(''gps_lat'', lats), (''gps_lon'', lons), (''gps_time'', ts)}"
  shows "\<exists>v. map_of ds' name = Some v \<and> dims v = [sg_data_point] \<and> length (vals v) = n
     \<and> (\<forall>j < n. (\<forall>k < length ts. find_nearest_index ds (ts ! k) \<noteq> Inr j)
                  \<longrightarrow> vals v ! j = None)
     \<and> ((\<forall>k < length ts. \<forall>k' < length ts. k \<noteq> k' \<longrightarrow>
            find_nearest_index ds (ts ! k) \<noteq> find_nearest_index ds (ts ! k'))
          \<longrightarrow> (\<forall>x \<in> set xs. x \<noteq> None)
          \<longrightarrow> count_present (vals v) = length ts)
     \<and> ((\<exists>k < length ts. \<exists>k' < length ts. k \<noteq> k' \<and>
            find_nearest_index ds (ts ! k) = find_nearest_index ds (ts ! k'))
          \<longrightarrow> count_present (vals v) < length ts)"
proof -
  from add_gps_coordinates_cells_spec[OF assms(1,2,3)] obtain idx where
    idx: "map (find_nearest_index ds) ts = map Inr idx"
    and bnd: "\<forall>i \<in> set idx. i < n"
    and r1: "map_of ds' ''gps_lat''
         = Some ((full_nan n)\<lparr>vals := scatter (replicate n None) (zip idx lats)\<rparr>)"
    and r2: "map_of ds' ''gps_lon''
         = Some ((full_nan n)\<lparr>vals := scatter (replicate n None) (zip idx lons)\<rparr>)"
    and r3: "map_of ds' ''gps_time''
         = Some ((full_nan n)\<lparr>vals := scatter (replicate n None) (zip idx ts)\<rparr>)"
    by blast
  note mi = mapped_cells[OF idx]
  have len: "length lats = length ts" "length lons = length ts"
    using assms(2) by (simp_all add: gps_fix_cells_def)
  from assms(4) r1 r2 r3 len have
    xs: "length xs = length ts"
    and r: "map_of ds' name
         = Some ((full_nan n)\<lparr>vals := scatter (replicate n None) (zip idx xs)\<rparr>)"
    by auto
  let ?v = "(full_nan n)\<lparr>vals := scatter (replicate n None) (zip idx xs)\<rparr>"
  have lx: "length idx = length xs" using mi(1) xs by simp
  have inrange: "\<forall>p \<in> set (zip idx xs). fst p < n"
  proof
    fix p assume "p \<in> set (zip idx xs)"
    then have m: "(fst p, snd p) \<in> set (zip idx xs)" by simp
    have "fst p \<in> set idx" by (rule set_zip_leftD[OF m])
    then show "fst p < n" using bnd by simp
  qed
  have le: "count_present (vals ?v) \<le> card (set idx)"
    using count_present_scatter_le[OF inrange] lx by (simp add: zip_fst_set)
  have a: "dims ?v = [sg_data_point]" "length (vals ?v) = n"
    by (simp_all add: full_nan_def)
  have b: "\<forall>j < n. (\<forall>k < length ts. find_nearest_index ds (ts ! k) \<noteq> Inr j)
                  \<longrightarrow> vals ?v ! j = None"
  proof (intro allI impI)
    fix j assume j: "j < n" and un: "\<forall>k < length ts. find_nearest_index ds (ts ! k) \<noteq> Inr j"
    have "j \<notin> set idx"
    proof
      assume "j \<in> set idx"
      then obtain k where "k < length idx" "idx ! k = j" by (auto simp: in_set_conv_nth)
      with mi un show False by auto
    qed
    then have "j \<notin> fst ` set (zip idx xs)" using lx by (simp add: zip_fst_set)
    from scatter_untouched[OF this] j show "vals ?v ! j = None" by simp
  qed
  have inj: "distinct idx \<longleftrightarrow> (\<forall>k < length ts. \<forall>k' < length ts. k \<noteq> k' \<longrightarrow>
            find_nearest_index ds (ts ! k) \<noteq> find_nearest_index ds (ts ! k'))"
    using mi by (auto simp: distinct_conv_nth)
  have c: "(\<forall>k < length ts. \<forall>k' < length ts. k \<noteq> k' \<longrightarrow>
            find_nearest_index ds (ts ! k) \<noteq> find_nearest_index ds (ts ! k'))
          \<longrightarrow> (\<forall>x \<in> set xs. x \<noteq> None)
          \<longrightarrow> count_present (vals ?v) = length ts"
  proof (intro impI)
    assume d: "\<forall>k < length ts. \<forall>k' < length ts. k \<noteq> k' \<longrightarrow>
            find_nearest_index ds (ts ! k) \<noteq> find_nearest_index ds (ts ! k')"
      and p: "\<forall>x \<in> set xs. x \<noteq> None"
    have "\<forall>p \<in> set (zip idx xs). fst p < n \<and> snd p \<noteq> None"
    proof
      fix q assume "q \<in> set (zip idx xs)"
      then have m: "(fst q, snd q) \<in> set (zip idx xs)" by simp
      have "fst q \<in> set idx" by (rule set_zip_leftD[OF m])
      moreover have "snd q \<in> set xs" by (rule set_zip_rightD[OF m])
      ultimately show "fst q < n \<and> snd q \<noteq> None" using bnd p by auto
    qed
    from count_present_scatter[OF this] have "count_present (vals ?v) = card (set idx)"
      using lx by (simp add: zip_fst_set)
    moreover have "distinct idx" using inj d by blast
    ultimately show "count_present (vals ?v) = length ts"
      using mi(1) by (simp add: distinct_card)
  qed
  have d: "(\<exists>k < length ts. \<exists>k' < length ts. k \<noteq> k' \<and>
            find_nearest_index ds (ts ! k) = find_nearest_index ds (ts ! k'))
          \<longrightarrow> count_present (vals ?v) < length ts"
  proof
    assume "\<exists>k < length ts. \<exists>k' < length ts. k \<noteq> k' \<and>
            find_nearest_index ds (ts ! k) = find_nearest_index ds (ts ! k')"
    then have "\<not> distinct idx" using inj by blast
    then have "card (set idx) \<noteq> length idx" using card_distinct by blast
    moreover have "card (set idx) \<le> length idx" by (rule card_length)
    ultimately show "count_present (vals ?v) < length ts" using le mi(1) by simp
  qed
  from r a b c d show ?thesis by blast
qed

theorem add_gps_coordinates_shape_and_count_witness:
  "(\<exists>v. map_of dive_A_gps ''gps_lon'' = Some v \<and> dims v = [sg_data_point]
        \<and> length (vals v) = 3 \<and> count_present (vals v) = 1)
   \<and> (\<exists>v. map_of dive_C_gps ''gps_lat'' = Some v \<and> dims v = [sg_data_point]
        \<and> length (vals v) = 3 \<and> count_present (vals v) < 2)"
proof -
  have a: "\<forall>k<length [Some (150 :: real)]. \<forall>k'<length [Some (150 :: real)]. k \<noteq> k' \<longrightarrow>
     find_nearest_index dive_A ([Some 150] ! k) \<noteq> find_nearest_index dive_A ([Some 150] ! k')"
    by simp
  have p: "\<forall>x \<in> set [Some (20 :: real)]. x \<noteq> None" by simp
  have n1: "(''gps_lon'', [Some (20 :: real)])
            \<in> {(''gps_lat'', [Some 10]), (''gps_lon'', [Some 20]), (''gps_time'', [Some 150])}"
    by simp
  have c: "\<exists>k<length [Some 110, Some (120 :: real)]. \<exists>k'<length [Some 110, Some (120 :: real)].
     k \<noteq> k' \<and> find_nearest_index dive_C ([Some 110, Some 120] ! k)
                = find_nearest_index dive_C ([Some 110, Some 120] ! k')"
    by (rule exI[of _ 0], simp, rule exI[of _ 1], simp add: dive_C_def eval_defs)
  have n2: "(''gps_lat'', [Some 10, Some (11 :: real)])
            \<in> {(''gps_lat'', [Some 10, Some 11]), (''gps_lon'', [Some 20, Some 21]),
                (''gps_time'', [Some 110, Some 120])}"
    by simp
  from add_gps_coordinates_shape_and_count[OF dive_A_dim dive_A_cells dive_A_run n1] a p
  have "\<exists>v. map_of dive_A_gps ''gps_lon'' = Some v \<and> dims v = [sg_data_point]
        \<and> length (vals v) = 3 \<and> count_present (vals v) = 1"
    by auto
  moreover
  from add_gps_coordinates_shape_and_count[OF dive_C_dim dive_C_cells dive_C_run n2] c
  have "\<exists>v. map_of dive_C_gps ''gps_lat'' = Some v \<and> dims v = [sg_data_point]
        \<and> length (vals v) = 3 \<and> count_present (vals v) < 2"
    by auto
  ultimately show ?thesis by blast
qed

text \<open>
  Claim C5. When two fixes are mapped to the same index, \<^verbatim>\<open>add_gps_coordinates\<close> returns
  without error, and the latitude, longitude and time stored at that index are those of
  the later fix (the last one in fix-axis order that is mapped to the index).
\<close>

theorem later_fix_overwrites:
  assumes "dim_size ds sg_data_point = Inr n"
    and "gps_fixes ds ts lats lons"
    and "map_of ds ''ctd_time'' = Some ctd_time"
    and "length (vals ctd_time) = n"
    and "k1 < k2" and "k2 < length ts"
    and "find_nearest_index ds (Some (ts ! k1)) = Inr i"
    and "find_nearest_index ds (Some (ts ! k2)) = Inr i"
    and "\<forall>k'. k2 < k' \<and> k' < length ts \<longrightarrow> find_nearest_index ds (Some (ts ! k')) \<noteq> Inr i"
  shows "\<exists>ds' vlat vlon vtime. add_gps_coordinates ds = Inr ds'
     \<and> map_of ds' ''gps_lat'' = Some vlat \<and> vals vlat ! i = Some (lats ! k2)
     \<and> map_of ds' ''gps_lon'' = Some vlon \<and> vals vlon ! i = Some (lons ! k2)
     \<and> map_of ds' ''gps_time'' = Some vtime \<and> vals vtime ! i = Some (ts ! k2)"
proof -
  from find_nearest_index_present[OF assms(7,3)] obtain x where
    x: "Some x \<in> set (vals ctd_time)" by blast
  from add_gps_coordinates_total[OF assms(1,2)] assms(3,4) x obtain ds' where
    run: "add_gps_coordinates ds = Inr ds'" by blast
  from add_gps_coordinates_spec[OF assms(1,2) run] obtain idx where
    idx: "map (\<lambda>t. find_nearest_index ds (Some t)) ts = map Inr idx"
    and bnd: "\<forall>i \<in> set idx. i < n"
    and r1: "map_of ds' ''gps_lat''
         = Some ((full_nan n)\<lparr>vals := scatter (replicate n None) (zip idx (map Some lats))\<rparr>)"
    and r2: "map_of ds' ''gps_lon''
         = Some ((full_nan n)\<lparr>vals := scatter (replicate n None) (zip idx (map Some lons))\<rparr>)"
    and r3: "map_of ds' ''gps_time''
         = Some ((full_nan n)\<lparr>vals := scatter (replicate n None) (zip idx (map Some ts))\<rparr>)"
    by blast
  note mi = mapped_indices[OF idx]
  have len: "length lats = length ts" "length lons = length ts"
    using assms(2) by (simp_all add: gps_fixes_def)
  have k2: "k2 < length idx" "idx ! k2 = i" using mi assms(6,8) by auto
  have i: "i < length (replicate n (None :: cell))" using bnd k2 by (metis length_replicate nth_mem)
  have last: "\<forall>k'. k2 < k' \<and> k' < length idx \<longrightarrow> idx ! k' \<noteq> i"
    using mi assms(9) by auto
  have w: "scatter (replicate n None) (zip idx (map Some xs)) ! i = Some (xs ! k2)"
    if "length xs = length ts" for xs :: "real list"
  proof -
    have "length idx = length (map Some xs)" using mi(1) that by simp
    from scatter_zip_last[OF this k2 i last] k2(1) mi(1) that show ?thesis by simp
  qed
  from run r1 r2 r3 w[OF len(1)] w[OF len(2)] w[OF refl] show ?thesis by simp
qed

theorem later_fix_overwrites_witness:
  "\<exists>ds' vlat vlon vtime. add_gps_coordinates dive_C = Inr ds'
     \<and> map_of ds' ''gps_lat'' = Some vlat \<and> vals vlat ! 0 = Some 11
     \<and> map_of ds' ''gps_lon'' = Some vlon \<and> vals vlon ! 0 = Some 21
     \<and> map_of ds' ''gps_time'' = Some vtime \<and> vals vtime ! 0 = Some 120"
proof -
  have h3: "map_of dive_C ''ctd_time'' = Some (mk_var sg_data_point [100, 200, 300])"
    by (simp add: dive_C_def)
  have h4: "length (vals (mk_var sg_data_point [100, 200, 300])) = 3"
    by (simp add: mk_var_def)
  have h7: "find_nearest_index dive_C (Some ([110, 120] ! 0)) = Inr 0"
    by (simp add: dive_C_def eval_defs)
  have h8: "find_nearest_index dive_C (Some ([110, 120] ! 1)) = Inr 0"
    by (simp add: dive_C_def eval_defs)
  have h9: "\<forall>k'. 1 < k' \<and> k' < length [110, 120 :: real]
              \<longrightarrow> find_nearest_index dive_C (Some ([110, 120] ! k')) \<noteq> Inr 0"
    by auto
  from later_fix_overwrites[OF dive_C_dim dive_C_fixes h3 h4 _ _ h7 h8 h9]
  show ?thesis by simp
qed

text \<open>
  Claim C9. On a record whose fix axis is empty, \<^verbatim>\<open>add_gps_coordinates\<close> returns without
  error; the three aligned arrays are present, each on the measurement axis with its full
  length and missing at every position, and every other variable is as before.
\<close>

theorem no_fixes_all_missing:
  assumes "dim_size ds sg_data_point = Inr n"
    and "gps_fixes ds [] [] []"
  shows "\<exists>ds'. add_gps_coordinates ds = Inr ds'
     \<and> (\<forall>name \<in> {''gps_lat'', ''gps_lon'', ''gps_time''}.
           \<exists>v. map_of ds' name = Some v \<and> dims v = [sg_data_point]
              \<and> length (vals v) = n \<and> (\<forall>c \<in> set (vals v). c = None))
     \<and> (\<forall>k. k \<notin> {''gps_lat'', ''gps_lon'', ''gps_time''} \<longrightarrow> map_of ds' k = map_of ds k)"
proof -
  from add_gps_coordinates_total[OF assms] obtain ds' where
    run: "add_gps_coordinates ds = Inr ds'" by blast
  from add_gps_coordinates_spec[OF assms run] have
    r: "map_of ds' ''gps_lat'' = Some (full_nan n)"
       "map_of ds' ''gps_lon'' = Some (full_nan n)"
       "map_of ds' ''gps_time'' = Some (full_nan n)"
    and fr: "\<forall>k. k \<noteq> ''gps_lat'' \<longrightarrow> k \<noteq> ''gps_lon'' \<longrightarrow> k \<noteq> ''gps_time''
            \<longrightarrow> map_of ds' k = map_of ds k"
    by (auto simp: full_nan_def)
  have "dims (full_nan n) = [sg_data_point] \<and> length (vals (full_nan n)) = n
        \<and> (\<forall>c \<in> set (vals (full_nan n)). c = None)"
    by (simp add: full_nan_def)
  with run r fr show ?thesis by simp
qed

theorem no_fixes_all_missing_witness:
  "dim_size dive_E sg_data_point = Inr 2 \<and> gps_fixes dive_E [] [] []
   \<and> (\<exists>ds'. add_gps_coordinates dive_E = Inr ds'
     \<and> (\<forall>name \<in> {''gps_lat'', ''gps_lon'', ''gps_time''}.
           \<exists>v. map_of ds' name = Some v \<and> dims v = [sg_data_point]
              \<and> length (vals v) = 2 \<and> (\<forall>c \<in> set (vals v). c = None))
     \<and> (\<forall>k. k \<notin> {''gps_lat'', ''gps_lon'', ''gps_time''} \<longrightarrow> map_of ds' k = map_of dive_E k))"
proof -
  have h1: "dim_size dive_E sg_data_point = Inr 2"
    by (simp add: dive_E_def eval_defs)
  have h2: "gps_fixes dive_E [] [] []"
    by (simp add: dive_E_def gps_fixes_def fix_array_def mk_var_def)
  from no_fixes_all_missing[OF h1 h2] h1 h2 show ?thesis by blast
qed

section \<open>Properties of repeat_trajectory_vars\<close>

lemmas traj_eval_defs = repeat_trajectory_vars_def assign_all_def dim_size_def ds_dims_def
  full_nan_def mk_var_def sg_data_point_def

text \<open>
  Claim C3, as stated, fails: a trajectory identifier with two elements has fewer elements
  than a measurement axis of length 3, and \<^verbatim>\<open>repeat_trajectory_vars\<close> raises
  \<^verbatim>\<open>ValueError\<close> on it, since the assignment broadcasts only a single value.
\<close>

theorem repeat_trajectory_vars_two_elements_raises:
  "dim_size dive_T2 sg_data_point = Inr 3
   \<and> map_of dive_T2 ''trajectory'' = Some traj2
   \<and> length (vals traj2) = 2
   \<and> repeat_trajectory_vars dive_T2 = Inl ValueError"
  by (simp add: dive_T2_def traj2_def traj_eval_defs)

text \<open>
  Claim C3, amended. When the trajectory identifier has a comment attribute and arrives
  as a single value (without dimension, or as one element), \<^verbatim>\<open>repeat_trajectory_vars\<close>
  returns, the identifier is then an array on the measurement axis of the axis's length
  with that value at every position, its comment attribute is the original comment, and
  the other variables are as before.
\<close>

theorem repeat_trajectory_vars_broadcast:
  assumes "map_of ds ''trajectory'' = Some trajectory_var"
    and "map_of (attrs trajectory_var) ''comment'' = Some trajectory_comment"
    and "length (shape trajectory_var) \<le> 1"
    and "vals trajectory_var = [x]"
    and "dim_size ds sg_data_point = Inr n"
  shows "\<exists>ds' v. repeat_trajectory_vars ds = Inr ds'
           \<and> map_of ds' ''trajectory'' = Some v
           \<and> dims v = [sg_data_point] \<and> length (vals v) = n
           \<and> (\<forall>j < n. vals v ! j = x)
           \<and> map_of (attrs v) ''comment'' = Some trajectory_comment
           \<and> (\<forall>k. k \<noteq> ''trajectory'' \<longrightarrow> map_of ds' k = map_of ds k)"
proof -
  let ?v = "(full_nan n)\<lparr>vals := replicate n x, attrs := [(''comment'', trajectory_comment)]\<rparr>"
  have a: "assign_all n trajectory_var = Inr (replicate n x)"
    using assms(3,4) by (simp add: assign_all_def)
  have run: "repeat_trajectory_vars ds = Inr (AList.update ''trajectory'' ?v ds)"
    using assms(1,2,5) a by (simp add: repeat_trajectory_vars_def)
  have "map_of (AList.update ''trajectory'' ?v ds) ''trajectory'' = Some ?v"
    by (simp add: update_conv')
  moreover have "\<forall>k. k \<noteq> ''trajectory'' \<longrightarrow> map_of (AList.update ''trajectory'' ?v ds) k = map_of ds k"
    by (simp add: update_conv')
  moreover have "dims ?v = [sg_data_point] \<and> length (vals ?v) = n \<and> (\<forall>j < n. vals ?v ! j = x)
      \<and> map_of (attrs ?v) ''comment'' = Some trajectory_comment"
    by (simp add: full_nan_def)
  ultimately show ?thesis using run by blast
qed

theorem repeat_trajectory_vars_broadcast_witness:
  "\<exists>ds' v. repeat_trajectory_vars dive_T1 = Inr ds'
           \<and> map_of ds' ''trajectory'' = Some v
           \<and> dims v = [sg_data_point] \<and> length (vals v) = 3
           \<and> (\<forall>j < 3. vals v ! j = Some 7)
           \<and> map_of (attrs v) ''comment'' = Some ''dive number''
           \<and> (\<forall>k. k \<noteq> ''trajectory'' \<longrightarrow> map_of ds' k = map_of dive_T1 k)"
proof -
  have h1: "map_of dive_T1 ''trajectory'' = Some traj1" by (simp add: dive_T1_def)
  have h2: "map_of (attrs traj1) ''comment'' = Some ''dive number''" by (simp add: traj1_def)
  have h3: "length (shape traj1) \<le> 1" by (simp add: traj1_def)
  have h4: "vals traj1 = [Some 7]" by (simp add: traj1_def)
  have h5: "dim_size dive_T1 sg_data_point = Inr 3" by (simp add: dive_T1_def traj1_def traj_eval_defs)
  show ?thesis by (rule repeat_trajectory_vars_broadcast[OF h1 h2 h3 h4 h5])
qed

section \<open>Properties of the dropped dimensions\<close>

lemmas drop_eval_defs = ds_sg_data_point_def drop_dims_def ds_dims_def mk_var_def
  sg_data_point_def

lemma ds_dims_names:
  assumes "(name, v) \<in> set ds" and "length (shape v) = length (dims v)"
  shows "set (dims v) \<subseteq> set (map fst (ds_dims ds))"
proof -
  have "set (zip (dims v) (shape v)) \<subseteq> set (ds_dims ds)"
    using assms(1) by (force simp: ds_dims_def)
  then have "fst ` set (zip (dims v) (shape v)) \<subseteq> fst ` set (ds_dims ds)" by blast
  moreover have "fst ` set (zip (dims v) (shape v)) = set (dims v)"
    using assms(2) by (metis map_fst_zip set_map)
  ultimately show ?thesis by simp
qed

text \<open>
  Claim C7, as stated, fails in both directions: a variable without dimension does not
  have the measurement axis among its dimensions and is kept, and a variable on the
  measurement axis and a second dimension is dropped.
\<close>

theorem drop_keeps_scalar_drops_matrix:
  "sg_data_point \<notin> set (dims scalar_var)
   \<and> map_of dive_D ''log_D_TGT'' = Some scalar_var
   \<and> map_of (ds_sg_data_point dive_D) ''log_D_TGT'' = Some scalar_var
   \<and> sg_data_point \<in> set (dims matrix_var)
   \<and> map_of dive_D ''profile'' = Some matrix_var
   \<and> map_of (ds_sg_data_point dive_D) ''profile'' = None"
  by (simp add: dive_D_def scalar_var_def matrix_var_def drop_eval_defs)

text \<open>
  Claim C7, amended. The call drops exactly the variables that use a dimension other than
  the measurement axis; the variables all of whose dimensions are the measurement axis,
  among them the variables without dimension, are kept unchanged and in their order.
  (Every variable has one length per dimension.)
\<close>

theorem drop_other_dimensions:
  assumes "\<forall>(name, v) \<in> set ds. length (shape v) = length (dims v)"
  shows "ds_sg_data_point ds = filter (\<lambda>(name, v). set (dims v) \<subseteq> {sg_data_point}) ds"
proof -
  have "\<And>p. p \<in> set ds \<Longrightarrow>
      (set (dims (snd p)) \<inter> (set (map fst (ds_dims ds)) - {sg_data_point}) = {})
      = (set (dims (snd p)) \<subseteq> {sg_data_point})"
  proof -
    fix p assume p: "p \<in> set ds"
    then have "(fst p, snd p) \<in> set ds" by simp
    moreover have "length (shape (snd p)) = length (dims (snd p))" using assms p by auto
    ultimately have "set (dims (snd p)) \<subseteq> set (map fst (ds_dims ds))" by (rule ds_dims_names)
    then show "(set (dims (snd p)) \<inter> (set (map fst (ds_dims ds)) - {sg_data_point}) = {})
      = (set (dims (snd p)) \<subseteq> {sg_data_point})" by blast
  qed
  then show ?thesis
    unfolding ds_sg_data_point_def drop_dims_def
    by (intro filter_cong refl) (auto simp: case_prod_beta)
qed

theorem drop_other_dimensions_witness:
  "ds_sg_data_point dive_D
   = [(''ctd_time'', mk_var sg_data_point [100, 200, 300]), (''log_D_TGT'', scalar_var)]"
proof -
  have h: "\<forall>(name, v) \<in> set dive_D. length (shape v) = length (dims v)"
    by (simp add: dive_D_def scalar_var_def matrix_var_def mk_var_def)
  show ?thesis
    unfolding drop_other_dimensions[OF h]
    by (simp add: dive_D_def scalar_var_def matrix_var_def mk_var_def sg_data_point_def)
qed

section \<open>Properties of the concatenation and the sorting\<close>








lemma length_lexsort [simp]: "length (lexsort keys) = length keys"
  by (simp add: lexsort_def)

lemma set_lexsort [simp]: "set (lexsort keys) = {0..<length keys}"
  by (simp add: lexsort_def)









lemmas concat_eval_defs = ds_all_def xr_concat_def concat_var_def axis_len_def column_def
  along_axis_def sortby_def isel_def lexsort_def sort_rank_def

text \<open>
  For records whose variable names differ, the two statements add nothing of their own:
  the outcome is that of the library call, sorted when it is a dataset.
\<close>

lemma ds_all_differing:
  assumes "datasets = ds0 # rest"
    and "\<not> (\<forall>ds \<in> set rest. set (map fst ds) = set (map fst ds0))"
  shows "ds_all differing datasets
         = (case differing datasets of Inl e \<Rightarrow> Inl e
            | Inr merged \<Rightarrow> sortby merged ''ctd_time'')"
proof -
  have "xr_concat differing (ds0 # rest) = differing (ds0 # rest)"
    unfolding xr_concat_def using assms(2) by (simp only: list.case if_not_P if_False)
  then show ?thesis by (simp add: ds_all_def assms(1))
qed









text \<open>
  The two example records, and the scenario of the specification through the whole of
  \<^verbatim>\<open>load_dataset\<close>: the fix at 150 of dive A goes to the sample at 100, the trajectory has
  length 5 and the times 50, 100, 200, 250, 300.
\<close>

lemma rec_A_B_sorted:
  "ds_all differing [rec_A, rec_B]
   = Inr [(''ctd_time'', mk_var sg_data_point [50, 100, 200, 200, 200]),
          (''temperature'', mk_var sg_data_point [4, 1, 2, 3, 5]),
          (''log_D_TGT'', mk_var sg_data_point [560, 550, 550, 550, 560])]"
  by (simp add: concat_eval_defs rec_A_def rec_B_def ds_dims_def mk_var_def scalar_var_def
      sg_data_point_def upt_rec)

lemma scenario_load:
  "load_dataset differing scenario_files
     [''p0150001_20040924.nc'', ''notes.txt'', ''p0150002_20040924.nc''] None None
   = Inr scenario_traj"
  by (simp add: load_dataset_def file_eval_defs scenario_files_def process_file_def
      scenario_A_def scenario_B_def traj1_def traj_eval_defs eval_defs drop_eval_defs
      concat_eval_defs scenario_traj_def upt_rec)

section \<open>Properties of the unit conversion table\<close>

lemma unit_conversion_Pa: "unit_conversion ''Pa'' = Some (''dbar'', 1 / 10000)"
  by (simp add: unit_conversion_def dict_of_def unit_conversion_items_def)

lemma unit_conversion_dbar: "unit_conversion ''dbar'' = Some (''kPa'', 10)"
  by (simp add: unit_conversion_def dict_of_def unit_conversion_items_def)

lemma one_over_factor:
  fixes f c :: real
  assumes "f * c = 1"
  shows "1 / f = c"
proof -
  have "f \<noteq> 0" using assms by auto
  then show ?thesis using assms by (simp add: field_simps)
qed

text \<open>Every conversion other than that of \<^verbatim>\<open>'Pa'\<close> whose target is a key is answered by
  its inverse.\<close>

lemma unit_conversion_other_pairs:
  assumes "unit_conversion u = Some (v, f)" and "u \<noteq> ''Pa''"
    and "unit_conversion v = Some (u', f')"
  shows "u' = u \<and> f' = 1 / f"
  using assms
  by (simp add: unit_conversion_def dict_of_def unit_conversion_items_def one_over_factor
      split: if_splits)

text \<open>
  Claim C10. Every conversion whose target unit is itself a key of the table would have
  to be answered by the inverse conversion. The table does not do so at the key
  \<^verbatim>\<open>'Pa'\<close>: it sends \<^verbatim>\<open>'Pa'\<close> to \<^verbatim>\<open>'dbar'\<close> with factor 0.0001, and \<^verbatim>\<open>'dbar'\<close>, a key,
  to \<^verbatim>\<open>'kPa'\<close> with factor 10, because the second \<^verbatim>\<open>'dbar'\<close> item of the literal
  overwrote the item that sent \<^verbatim>\<open>'dbar'\<close> to \<^verbatim>\<open>'Pa'\<close> with factor 10000.
\<close>

theorem unit_conversion_Pa_not_inverted:
  "unit_conversion ''Pa'' = Some (''dbar'', 1 / 10000)
   \<and> unit_conversion ''dbar'' = Some (''kPa'', 10)
   \<and> unit_conversion ''dbar'' \<noteq> Some (''Pa'', 1 / (1 / 10000))"
  by (simp add: unit_conversion_def dict_of_def unit_conversion_items_def)

end
